theory Spec2Isabelle
  imports Complex_Main "HOL-Library.Word" "HOL-Library.Log_Nat"
begin

section \<open>Data model\<close>

text \<open>
  The authentication routes of \<^verbatim>\<open>backend/src/routes/auth.ts\<close> and the middleware of
  \<^verbatim>\<open>backend/src/middleware/auth.ts\<close>, over the \<^verbatim>\<open>User\<close> entity.

  A JSON Web Token is modelled symbolically. A string that a client presents as a token is
  either the serialisation of the claims \<^verbatim>\<open>{sub, exp, iat}\<close> signed under some key
  (\<open>Jwt\<close>), or a string that is no such serialisation (\<open>NotJwt\<close>). Signing is
  deterministic: two tokens are the same string exactly when subject, expiry, issue time
  and key agree. \<^verbatim>\<open>jsonwebtoken\<close> stamps \<^verbatim>\<open>iat\<close> with the clock in whole seconds.
\<close>

datatype token =
  Jwt (sub: string) (exp: int) (iat: int) (signedWith: string)
| NotJwt string

text \<open>
  An Argon2 hash is modelled symbolically by the salt and the password it was computed
  from; \<^verbatim>\<open>argon2.verify\<close> accepts exactly the password that was hashed.
\<close>

datatype argon2hash = Argon2 (salt: string) (plain: string)

definition argon2_hash :: "string \<Rightarrow> string \<Rightarrow> argon2hash" where
  "argon2_hash slt pw = Argon2 slt pw"

definition argon2_verify :: "argon2hash \<Rightarrow> string \<Rightarrow> bool" where
  "argon2_verify h pw = (plain h = pw)"

text \<open>
  The columns of the \<^verbatim>\<open>User\<close> entity that the routes read and write. Dates are
  milliseconds since the epoch. The columns \<^verbatim>\<open>createdAt\<close> and \<^verbatim>\<open>updatedAt\<close>, which
  the ORM maintains by itself, and the \<^verbatim>\<open>todos\<close> relation are left out.
\<close>

record User =
  id' :: string
  email :: string
  password :: argon2hash
  refreshToken :: "token option"
  resetPasswordToken :: "string option"
  resetPasswordExpires :: "int option"
  emailVerificationOtp :: "string option"
  emailVerificationExpires :: "int option"
  isEmailVerified :: bool

text \<open>
  The module environment: the values of \<^verbatim>\<open>config/env\<close> that the routes use, the
  durations as \<^verbatim>\<open>parseInt\<close> reads them, and the \<^verbatim>\<open>IsEmail\<close> check of class-validator.
\<close>

record env =
  jwtSecret :: string
  accessTokenExpiresIn :: int
  refreshTokenExpiresIn :: int
  RESET_PASSWORD_EXPIRES_IN :: int
  IsEmail :: "string \<Rightarrow> bool"

text \<open>
  What one request reads from outside the program: the clock in milliseconds, the draw of
  \<^verbatim>\<open>Math.random()\<close> (a double, hence a rational), the bytes of \<^verbatim>\<open>crypto.randomBytes\<close>,
  the salt Argon2 picks, the identifier the ORM generates for a new row, whether the
  mailer delivers, and the answer of the identity provider. All clock reads of one request
  return the same value. What a mail says is not modelled, only whether sending it
  succeeds.
\<close>

datatype ticket = Throws | NoPayload | Payload (ticket_email: "string option")

record world =
  Date_now :: int
  Math_random :: rat
  entropy :: "nat \<Rightarrow> 8 word"
  argonSalt :: string
  uuid :: string
  sendMailOk :: bool
  verifyIdToken :: ticket

subsection \<open>Responses\<close>

datatype jval =
  Str string
| Bool bool
| Tok token
| Obj "(string \<times> jval) list"
| Errs "string list"

text \<open>
  A handler answers with a status and a JSON body, or passes an error on with
  \<^verbatim>\<open>next(err)\<close>.
\<close>

datatype response = Json nat "(string \<times> jval) list" | NextErr

subsection \<open>The repository\<close>

text \<open>
  The table is a list of rows, and it keeps the values the program assigns: what the
  database engine does to them (the collation of a text column, the precision of a
  timestamp column) is outside the model. \<open>findOneBy\<close> returns the first row that
  matches.
  \<open>save\<close> writes a row back under its identifier; \<open>save_new\<close> inserts an entity
  that has no identifier yet, under the generated identifier, and fails where the primary
  key or the unique email is taken.

  A nullable property of an entity is an \<open>option\<close>. \<open>None\<close> is JavaScript's
  \<^verbatim>\<open>null\<close>, which a loaded entity holds for a column that is NULL, and it is also
  \<^verbatim>\<open>undefined\<close>, which the routes logout, verify-otp and reset-password assign. The
  ORM's \<^verbatim>\<open>save\<close> writes the properties that are defined and skips a property that is
  \<^verbatim>\<open>undefined\<close>: the column keeps the value it has. \<open>skip_undefined stored entity\<close>
  is the row that such a \<^verbatim>\<open>save\<close> leaves: the entity, with each nullable property that
  is \<open>None\<close> taken from the row the entity was loaded from. Where that property is
  \<^verbatim>\<open>null\<close> because the column is NULL, this changes nothing; so the routes that assign
  only defined values hand their entity to \<open>save\<close> as it is.
\<close>

definition findOneBy :: "(User \<Rightarrow> bool) \<Rightarrow> User list \<Rightarrow> User option" where
  "findOneBy p db = List.find p db"

definition save :: "User \<Rightarrow> User list \<Rightarrow> User list" where
  "save user db = map (\<lambda>row. if id' row = id' user then user else row) db"

definition save_new :: "string \<Rightarrow> User \<Rightarrow> User list \<Rightarrow> (User \<times> User list) option" where
  "save_new newId user db =
     (if (\<exists>row \<in> set db. id' row = newId \<or> email row = email user) then None
      else Some (user\<lparr>id' := newId\<rparr>, db @ [user\<lparr>id' := newId\<rparr>]))"

definition create :: "string \<Rightarrow> argon2hash \<Rightarrow> User" where
  "create em pw =
     \<lparr>id' = [], email = em, password = pw, refreshToken = None,
      resetPasswordToken = None, resetPasswordExpires = None,
      emailVerificationOtp = None, emailVerificationExpires = None,
      isEmailVerified = False\<rparr>"

definition skip_undefined :: "User \<Rightarrow> User \<Rightarrow> User" where
  "skip_undefined stored entity =
     entity\<lparr>refreshToken :=
              (case refreshToken entity of None \<Rightarrow> refreshToken stored | Some v \<Rightarrow> Some v),
            resetPasswordToken :=
              (case resetPasswordToken entity of
                 None \<Rightarrow> resetPasswordToken stored | Some v \<Rightarrow> Some v),
            resetPasswordExpires :=
              (case resetPasswordExpires entity of
                 None \<Rightarrow> resetPasswordExpires stored | Some v \<Rightarrow> Some v),
            emailVerificationOtp :=
              (case emailVerificationOtp entity of
                 None \<Rightarrow> emailVerificationOtp stored | Some v \<Rightarrow> Some v),
            emailVerificationExpires :=
              (case emailVerificationExpires entity of
                 None \<Rightarrow> emailVerificationExpires stored | Some v \<Rightarrow> Some v)\<rparr>"

section \<open>Tokens\<close>

definition sign :: "string \<Rightarrow> int \<Rightarrow> string \<Rightarrow> int \<Rightarrow> token" where
  "sign subject expiry secret clock = Jwt subject expiry (clock div 1000) secret"

text \<open>
  \<^verbatim>\<open>verify\<close> throws (here: \<open>None\<close>) on a string that is no token, on a signature
  under another key, and once the clock in seconds has reached \<^verbatim>\<open>exp\<close>.
\<close>

fun verify :: "token \<Rightarrow> string \<Rightarrow> int \<Rightarrow> string option" where
  "verify (Jwt s e i k) secret clock =
     (if k = secret \<and> clock div 1000 < e then Some s else None)"
| "verify (NotJwt _) secret clock = None"

definition generateTokens :: "env \<Rightarrow> string \<Rightarrow> int \<Rightarrow> token \<times> token" where
  "generateTokens cfg userId clock =
     (let now = clock div 1000;
          accessTokenExp = now + accessTokenExpiresIn cfg;
          refreshTokenExp = now + refreshTokenExpiresIn cfg;
          accessToken = sign userId accessTokenExp (jwtSecret cfg) clock;
          refreshToken = sign userId refreshTokenExp (jwtSecret cfg) clock
      in (accessToken, refreshToken))"

text \<open>A body field holding a token is falsy when it is absent or the empty string.\<close>

definition falsy :: "token option \<Rightarrow> bool" where
  "falsy t = (t = None \<or> t = Some (NotJwt []))"

section \<open>Routes\<close>

subsection \<open>Validation\<close>

text \<open>
  The class-validator decorators of the four DTO classes; the result lists the properties
  that fail, as the \<^verbatim>\<open>errors\<close> array does. A missing field is the empty string.
\<close>

definition IsNotEmpty :: "string \<Rightarrow> bool" where
  "IsNotEmpty s = (s \<noteq> [])"

definition MinLength :: "nat \<Rightarrow> string \<Rightarrow> bool" where
  "MinLength n s = (n \<le> length s)"

definition validate_RegisterDTO :: "env \<Rightarrow> string \<Rightarrow> string \<Rightarrow> string list" where
  "validate_RegisterDTO cfg dto_email dto_password =
     (if IsEmail cfg dto_email then [] else [''email'']) @
     (if IsNotEmpty dto_password \<and> MinLength 6 dto_password then [] else [''password''])"

definition validate_LoginDTO :: "env \<Rightarrow> string \<Rightarrow> string \<Rightarrow> string list" where
  "validate_LoginDTO cfg dto_email dto_password =
     (if IsEmail cfg dto_email then [] else [''email'']) @
     (if IsNotEmpty dto_password then [] else [''password''])"

definition validate_VerifyOtpDTO :: "env \<Rightarrow> string \<Rightarrow> string \<Rightarrow> string list" where
  "validate_VerifyOtpDTO cfg dto_email dto_otp =
     (if IsEmail cfg dto_email then [] else [''email'']) @
     (if IsNotEmpty dto_otp \<and> MinLength 6 dto_otp then [] else [''otp''])"

definition validate_ResendOtpDTO :: "env \<Rightarrow> string \<Rightarrow> string list" where
  "validate_ResendOtpDTO cfg dto_email =
     (if IsEmail cfg dto_email then [] else [''email''])"

subsection \<open>Numbers\<close>

text \<open>
  A JavaScript number is an IEEE 754 double. A finite double is a rational, and the result
  of an arithmetic operation is the exact result rounded to the nearest double, ties to
  the even significand: \<open>fl\<close>. The spacing of the doubles around \<open>x\<close> is
  \<open>ulp x\<close>: 52 binary places below the exponent of \<open>x\<close> (\<open>ilog2\<close>), and
  no finer than \<open>2 powi (- 1074)\<close>, the spacing of the subnormal numbers. Overflow
  to infinity, beyond \<open>2 powi 1024\<close>, is not modelled. Times are integral numbers of
  milliseconds far below \<open>2 ^ 53\<close>, where the arithmetic of doubles is exact, and
  are kept as integers.
\<close>

definition ilog2 :: "rat \<Rightarrow> int" where
  "ilog2 x = (if 1 \<le> x then bitlen \<lfloor>x\<rfloor> - 1 else - bitlen (\<lceil>1 / x\<rceil> - 1))"

definition round_even :: "rat \<Rightarrow> int" where
  "round_even x =
     (let f = \<lfloor>x\<rfloor>; d = x - of_int f
      in if d < 1 / 2 then f else if 1 / 2 < d then f + 1 else if even f then f else f + 1)"

definition ulp :: "rat \<Rightarrow> rat" where
  "ulp x = 2 powi (max (ilog2 \<bar>x\<bar>) (- 1022) - 52)"

definition fl :: "rat \<Rightarrow> rat" where
  "fl x = (if x = 0 then 0 else of_int (round_even (x / ulp x)) * ulp x)"

text \<open>What \<^verbatim>\<open>Math.random()\<close> may return: a double, at least 0 and below 1.\<close>

definition unit_double :: "rat \<Rightarrow> bool" where
  "unit_double r = (fl r = r \<and> 0 \<le> r \<and> r < 1)"

subsection \<open>One-time codes\<close>

text \<open>The decimal digits of a number, as \<^verbatim>\<open>toString\<close> prints an integer.\<close>

definition digitChar :: "nat \<Rightarrow> char" where
  "digitChar d = ''0123456789'' ! d"

fun digits :: "nat \<Rightarrow> string" where
  "digits n = (if n < 10 then [digitChar n] else digits (n div 10) @ [digitChar (n mod 10)])"

definition toString :: "int \<Rightarrow> string" where
  "toString n = (if n < 0 then CHR ''-'' # digits (nat (- n)) else digits (nat n))"

definition generateOtp :: "rat \<Rightarrow> string" where
  "generateOtp random = toString \<lfloor>fl (100000 + fl (random * 900000))\<rfloor>"

text \<open>\<^verbatim>\<open>randomBytes(n).toString('hex')\<close>: two lower-case hexadecimal digits per byte.\<close>

definition randomBytes :: "world \<Rightarrow> nat \<Rightarrow> 8 word list" where
  "randomBytes w n = map (entropy w) [0..<n]"

definition hexChar :: "nat \<Rightarrow> char" where
  "hexChar d = ''0123456789abcdef'' ! d"

definition toHex :: "8 word list \<Rightarrow> string" where
  "toHex bytes = concat (map (\<lambda>b. [hexChar (unat b div 16), hexChar (unat b mod 16)]) bytes)"

subsection \<open>Registration and login\<close>

definition register :: "env \<Rightarrow> User list \<Rightarrow> string \<Rightarrow> string \<Rightarrow> world \<Rightarrow> response \<times> User list" where
  "register cfg db dto_email dto_password w =
     (if validate_RegisterDTO cfg dto_email dto_password \<noteq> []
      then (Json 400 [(''errors'', Errs (validate_RegisterDTO cfg dto_email dto_password))], db)
      else (case findOneBy (\<lambda>u. email u = dto_email) db of
              Some existing \<Rightarrow> (Json 400 [(''error'', Str ''Email already registered'')], db)
            | None \<Rightarrow>
                (let hashed = argon2_hash (argonSalt w) dto_password;
                     otp = generateOtp (Math_random w);
                     otpExpires = Date_now w + 10 * 60 * 1000;
                     user = (create dto_email hashed)
                              \<lparr>emailVerificationOtp := Some otp,
                               emailVerificationExpires := Some otpExpires,
                               isEmailVerified := False\<rparr>
                 in (case save_new (uuid w) user db of
                       None \<Rightarrow> (NextErr, db)
                     | Some (saved, db') \<Rightarrow>
                         (Json 201
                            [(''message'', Str ''Registration successful. Please check your email for verification code.''),
                             (''email'', Str (email saved)),
                             (''requiresVerification'', Bool True)],
                          db')))))"

definition login :: "env \<Rightarrow> User list \<Rightarrow> string \<Rightarrow> string \<Rightarrow> world \<Rightarrow> response \<times> User list" where
  "login cfg db dto_email dto_password w =
     (if validate_LoginDTO cfg dto_email dto_password \<noteq> []
      then (Json 400 [(''errors'', Errs (validate_LoginDTO cfg dto_email dto_password))], db)
      else (case findOneBy (\<lambda>u. email u = dto_email) db of
              None \<Rightarrow> (Json 400 [(''error'', Str ''Invalid credentials'')], db)
            | Some user \<Rightarrow>
                if \<not> argon2_verify (password user) dto_password
                then (Json 400 [(''error'', Str ''Invalid credentials'')], db)
                else if \<not> isEmailVerified user
                then (Json 400 [(''error'', Str ''Email not verified''),
                                (''message'', Str ''Please verify your email before logging in.''),
                                (''requiresVerification'', Bool True),
                                (''email'', Str (email user))], db)
                else (let (accessToken, newRefreshToken) =
                            generateTokens cfg (id' user) (Date_now w);
                          user' = user\<lparr>refreshToken := Some newRefreshToken\<rparr>
                      in (Json 200 [(''message'', Str ''Logged in''),
                                    (''user'', Obj [(''id'', Str (id' user')),
                                                    (''email'', Str (email user'))]),
                                    (''accessToken'', Tok accessToken),
                                    (''refreshToken'', Tok newRefreshToken)],
                          save user' db))))"

subsection \<open>Email verification\<close>

text \<open>
  On success verify-otp sets \<^verbatim>\<open>isEmailVerified\<close>, assigns \<^verbatim>\<open>undefined\<close> to the code and to
  its expiry, and saves the entity.
\<close>

definition verify_otp :: "env \<Rightarrow> User list \<Rightarrow> string \<Rightarrow> string \<Rightarrow> world \<Rightarrow> response \<times> User list" where
  "verify_otp cfg db dto_email dto_otp w =
     (if validate_VerifyOtpDTO cfg dto_email dto_otp \<noteq> []
      then (Json 400 [(''errors'', Errs (validate_VerifyOtpDTO cfg dto_email dto_otp))], db)
      else (case findOneBy (\<lambda>u. email u = dto_email) db of
              None \<Rightarrow> (Json 404 [(''error'', Str ''User not found'')], db)
            | Some user \<Rightarrow>
                if emailVerificationOtp user = None \<or> emailVerificationOtp user = Some []
                   \<or> emailVerificationOtp user \<noteq> Some dto_otp
                   \<or> emailVerificationExpires user = None
                   \<or> (case emailVerificationExpires user of
                         Some expires \<Rightarrow> expires < Date_now w | None \<Rightarrow> False)
                then (Json 400 [(''error'', Str ''Invalid or expired OTP'')], db)
                else (let user' = user\<lparr>isEmailVerified := True,
                                       emailVerificationOtp := None,
                                       emailVerificationExpires := None\<rparr>
                      in (Json 200 [(''message'', Str ''Email verified successfully''),
                                    (''verified'', Bool True)],
                          save (skip_undefined user user') db))))"

definition resend_otp :: "env \<Rightarrow> User list \<Rightarrow> string \<Rightarrow> world \<Rightarrow> response \<times> User list" where
  "resend_otp cfg db dto_email w =
     (if validate_ResendOtpDTO cfg dto_email \<noteq> []
      then (Json 400 [(''errors'', Errs (validate_ResendOtpDTO cfg dto_email))], db)
      else (case findOneBy (\<lambda>u. email u = dto_email) db of
              None \<Rightarrow> (Json 404 [(''error'', Str ''User not found'')], db)
            | Some user \<Rightarrow>
                if isEmailVerified user
                then (Json 400 [(''error'', Str ''Email is already verified'')], db)
                else (let otp = generateOtp (Math_random w);
                          otpExpires = Date_now w + 10 * 60 * 1000;
                          user' = user\<lparr>emailVerificationOtp := Some otp,
                                       emailVerificationExpires := Some otpExpires\<rparr>;
                          db' = save user' db
                      in if \<not> sendMailOk w
                         then (Json 500 [(''error'', Str ''Failed to send OTP email'')], db')
                         else (Json 200 [(''message'', Str ''OTP resent successfully''),
                                         (''email'', Str (email user'))],
                               db'))))"


subsection \<open>Token refresh\<close>

text \<open>A token that does not verify makes \<^verbatim>\<open>verify\<close> throw; the route catches it.\<close>

definition invalid_refresh :: response where
  "invalid_refresh = Json 401 [(''error'', Str ''Invalid refresh token'')]"

definition refresh :: "env \<Rightarrow> User list \<Rightarrow> token option \<Rightarrow> world \<Rightarrow> response \<times> User list" where
  "refresh cfg db body_refreshToken w =
     (case body_refreshToken of
        None \<Rightarrow> (Json 401 [(''error'', Str ''Refresh token required'')], db)
      | Some presented \<Rightarrow>
          if falsy (Some presented)
          then (Json 401 [(''error'', Str ''Refresh token required'')], db)
          else (case verify presented (jwtSecret cfg) (Date_now w) of
                  None \<Rightarrow> (invalid_refresh, db)
                | Some payload_sub \<Rightarrow>
                    (case findOneBy (\<lambda>u. id' u = payload_sub) db of
                       None \<Rightarrow> (invalid_refresh, db)
                     | Some user \<Rightarrow>
                         if refreshToken user \<noteq> Some presented then (invalid_refresh, db)
                         else (let (accessToken, newRefreshToken) =
                                     generateTokens cfg (id' user) (Date_now w);
                                   user' = user\<lparr>refreshToken := Some newRefreshToken\<rparr>
                               in (Json 200 [(''message'', Str ''Tokens refreshed''),
                                             (''accessToken'', Tok accessToken),
                                             (''refreshToken'', Tok newRefreshToken)],
                                   save user' db)))))"

subsection \<open>Logout\<close>

text \<open>
  For a token that verifies and names an account, logout assigns \<^verbatim>\<open>undefined\<close> to
  \<^verbatim>\<open>refreshToken\<close> and saves the entity. Whatever happens, the answer is the same.
\<close>

definition logout :: "env \<Rightarrow> User list \<Rightarrow> token option \<Rightarrow> world \<Rightarrow> response \<times> User list" where
  "logout cfg db body_refreshToken w =
     (let db' =
        (case body_refreshToken of
           None \<Rightarrow> db
         | Some presented \<Rightarrow>
             if falsy (Some presented) then db
             else (case verify presented (jwtSecret cfg) (Date_now w) of
                     None \<Rightarrow> db
                   | Some payload_sub \<Rightarrow>
                       (case findOneBy (\<lambda>u. id' u = payload_sub) db of
                          None \<Rightarrow> db
                        | Some user \<Rightarrow>
                            (let user' = user\<lparr>refreshToken := None\<rparr>
                             in save (skip_undefined user user') db))))
      in (Json 200 [(''message'', Str ''Logged out'')], db'))"

subsection \<open>Google sign-in\<close>

text \<open>
  \<open>issue\<close> is the common tail of the route: tokens for the account found or created.
\<close>

definition google_issue :: "env \<Rightarrow> User list \<Rightarrow> User \<Rightarrow> world \<Rightarrow> response \<times> User list" where
  "google_issue cfg db user w =
     (let (accessToken, newRefreshToken) = generateTokens cfg (id' user) (Date_now w);
          user' = user\<lparr>refreshToken := Some newRefreshToken\<rparr>
      in (Json 200 [(''message'', Str ''Signed in with Google''),
                    (''user'', Obj [(''id'', Str (id' user')), (''email'', Str (email user'))]),
                    (''accessToken'', Tok accessToken),
                    (''refreshToken'', Tok newRefreshToken)],
          save user' db))"

definition google :: "env \<Rightarrow> User list \<Rightarrow> string \<Rightarrow> world \<Rightarrow> response \<times> User list" where
  "google cfg db body_token w =
     (if body_token = [] then (Json 400 [(''error'', Str ''Token is required'')], db)
      else (case verifyIdToken w of
              Throws \<Rightarrow> (NextErr, db)
            | NoPayload \<Rightarrow> (Json 400 [(''error'', Str ''Invalid Google token'')], db)
            | Payload None \<Rightarrow> (Json 400 [(''error'', Str ''Invalid Google token'')], db)
            | Payload (Some payload_email) \<Rightarrow>
                if payload_email = []
                then (Json 400 [(''error'', Str ''Invalid Google token'')], db)
                else (case findOneBy (\<lambda>u. email u = payload_email) db of
                        None \<Rightarrow>
                          (let tempPassword = toHex (randomBytes w 16);
                               user = create payload_email (argon2_hash (argonSalt w) tempPassword)
                           in (case save_new (uuid w) user db of
                                 None \<Rightarrow> (NextErr, db)
                               | Some (saved, db') \<Rightarrow> google_issue cfg db' saved w))
                      | Some user \<Rightarrow> google_issue cfg db user w)))"

subsection \<open>Password reset\<close>

definition neutral_message :: response where
  "neutral_message =
     Json 200 [(''message'', Str ''If that email is registered, a reset link has been sent.'')]"

definition forgot_password :: "env \<Rightarrow> User list \<Rightarrow> string \<Rightarrow> world \<Rightarrow> response \<times> User list" where
  "forgot_password cfg db body_email w =
     (if body_email = [] then (Json 400 [(''error'', Str ''Email is required'')], db)
      else (case findOneBy (\<lambda>u. email u = body_email) db of
              Some user \<Rightarrow>
                (let tok = toHex (randomBytes w 32);
                     user' = user\<lparr>resetPasswordToken := Some tok,
                                  resetPasswordExpires :=
                                    Some (Date_now w + RESET_PASSWORD_EXPIRES_IN cfg * 1000)\<rparr>;
                     db' = save user' db
                 in if \<not> sendMailOk w then (NextErr, db') else (neutral_message, db'))
            | None \<Rightarrow> (neutral_message, db)))"

text \<open>
  On success reset-password stores the new hash, assigns \<^verbatim>\<open>undefined\<close> to the token and to
  its expiry, and saves the entity.
\<close>

definition reset_password :: "env \<Rightarrow> User list \<Rightarrow> string \<Rightarrow> string \<Rightarrow> world \<Rightarrow> response \<times> User list" where
  "reset_password cfg db body_token newPassword w =
     (if body_token = [] \<or> newPassword = []
      then (Json 400 [(''error'', Str ''Token and new password are required'')], db)
      else (case findOneBy (\<lambda>u. resetPasswordToken u = Some body_token) db of
              None \<Rightarrow> (Json 400 [(''error'', Str ''Invalid or expired token'')], db)
            | Some user \<Rightarrow>
                (case resetPasswordExpires user of
                   None \<Rightarrow> (Json 400 [(''error'', Str ''Invalid or expired token'')], db)
                 | Some expires \<Rightarrow>
                     if expires < Date_now w
                     then (Json 400 [(''error'', Str ''Invalid or expired token'')], db)
                     else (let user' = user\<lparr>password := argon2_hash (argonSalt w) newPassword,
                                            resetPasswordToken := None,
                                            resetPasswordExpires := None\<rparr>
                           in (Json 200 [(''message'', Str ''Password has been reset'')],
                               save (skip_undefined user user') db)))))"

section \<open>The authentication middleware\<close>

text \<open>
  An \<^verbatim>\<open>Authorization\<close> header is kept split at index 7, where the middleware splits it:
  its first seven characters (all of it, when it is shorter) and the rest, read as a token.
  The middleware either answers itself or calls \<^verbatim>\<open>next()\<close> with \<^verbatim>\<open>req.user\<close> set.
\<close>

datatype authorization = Header (scheme: string) (credentials: token)

datatype authenticated = Denied response | Granted User

definition authenticate :: "env \<Rightarrow> User list \<Rightarrow> authorization option \<Rightarrow> world \<Rightarrow> authenticated" where
  "authenticate cfg db authHeader w =
     (case authHeader of
        None \<Rightarrow> Denied (Json 401 [(''error'', Str ''Authorization header required'')])
      | Some (Header prefix tok) \<Rightarrow>
          if prefix \<noteq> ''Bearer ''
          then Denied (Json 401 [(''error'', Str ''Authorization header required'')])
          else (case verify tok (jwtSecret cfg) (Date_now w) of
                  None \<Rightarrow> Denied (Json 401 [(''error'', Str ''Invalid token'')])
                | Some payload_sub \<Rightarrow>
                    (case findOneBy (\<lambda>u. id' u = payload_sub) db of
                       None \<Rightarrow> Denied (Json 401 [(''error'', Str ''User not found'')])
                     | Some user \<Rightarrow> Granted user)))"

definition me :: "env \<Rightarrow> User list \<Rightarrow> authorization option \<Rightarrow> world \<Rightarrow> response \<times> User list" where
  "me cfg db authHeader w =
     (case authenticate cfg db authHeader w of
        Denied res \<Rightarrow> (res, db)
      | Granted u \<Rightarrow> (Json 200 [(''id'', Str (id' u)), (''email'', Str (email u))], db))"

section \<open>Requests and runs\<close>

datatype request =
  Register string string
| Login string string
| VerifyOtp string string
| ResendOtp string
| Refresh "token option"
| Logout "token option"
| Google string
| ForgotPassword string
| ResetPassword string string
| Me "authorization option"

fun handle :: "env \<Rightarrow> User list \<Rightarrow> request \<Rightarrow> world \<Rightarrow> response \<times> User list" where
  "handle cfg db (Register e p) w = register cfg db e p w"
| "handle cfg db (Login e p) w = login cfg db e p w"
| "handle cfg db (VerifyOtp e c) w = verify_otp cfg db e c w"
| "handle cfg db (ResendOtp e) w = resend_otp cfg db e w"
| "handle cfg db (Refresh t) w = refresh cfg db t w"
| "handle cfg db (Logout t) w = logout cfg db t w"
| "handle cfg db (Google t) w = google cfg db t w"
| "handle cfg db (ForgotPassword e) w = forgot_password cfg db e w"
| "handle cfg db (ResetPassword t p) w = reset_password cfg db t p w"
| "handle cfg db (Me h) w = me cfg db h w"

text \<open>
  Modelled from the spec: the error handler (\<^verbatim>\<open>middleware/errorHandler\<close>, not among the
  sources) answers an error passed to \<^verbatim>\<open>next\<close> with status 500.
\<close>

fun status :: "response \<Rightarrow> nat" where
  "status (Json code body) = code"
| "status NextErr = 500"

text \<open>The tokens a response hands to the client.\<close>

fun issued_refresh :: "response \<Rightarrow> token option" where
  "issued_refresh (Json code body) =
     (case map_of body ''refreshToken'' of Some (Tok t) \<Rightarrow> Some t | _ \<Rightarrow> None)"
| "issued_refresh NextErr = None"

fun issued_access :: "response \<Rightarrow> token option" where
  "issued_access (Json code body) =
     (case map_of body ''accessToken'' of Some (Tok t) \<Rightarrow> Some t | _ \<Rightarrow> None)"
| "issued_access NextErr = None"

text \<open>
  Requests are served one at a time. A run folds \<open>handle\<close> over them and keeps, beside
  the table, a log of the refresh token most recently handed out for each account (the
  account a token is for is its subject).
\<close>

definition note_issued :: "response \<Rightarrow> (string \<rightharpoonup> token) \<Rightarrow> (string \<rightharpoonup> token)" where
  "note_issued res latest =
     (case issued_refresh res of
        Some (Jwt s e i k) \<Rightarrow> latest(s \<mapsto> Jwt s e i k)
      | _ \<Rightarrow> latest)"

fun run :: "env \<Rightarrow> User list \<times> (string \<rightharpoonup> token) \<Rightarrow> (request \<times> world) list
            \<Rightarrow> User list \<times> (string \<rightharpoonup> token)" where
  "run cfg (db, latest) [] = (db, latest)"
| "run cfg (db, latest) ((r, w) # rest) =
     (case handle cfg db r w of (res, db') \<Rightarrow> run cfg (db', note_issued res latest) rest)"

section \<open>Properties stated for the routes\<close>

text \<open>
  The account a refresh request is accepted for, in the words of the specification: the
  presented token verifies under the secret and equals the token stored on the account
  that it names.
\<close>

definition refresh_account :: "env \<Rightarrow> User list \<Rightarrow> token option \<Rightarrow> world \<Rightarrow> User option" where
  "refresh_account cfg db presented w =
     (case presented of
        None \<Rightarrow> None
      | Some tok \<Rightarrow>
          (case verify tok (jwtSecret cfg) (Date_now w) of
             None \<Rightarrow> None
           | Some s \<Rightarrow>
               (case findOneBy (\<lambda>u. id' u = s) db of
                  None \<Rightarrow> None
                | Some u \<Rightarrow> if refreshToken u = Some tok then Some u else None)))"

text \<open>Single session: a stored refresh token is the one most recently issued.\<close>

definition single_session :: "User list \<Rightarrow> (string \<rightharpoonup> token) \<Rightarrow> bool" where
  "single_session db latest =
     (\<forall>u \<in> set db. refreshToken u = None \<or> refreshToken u = latest (id' u))"

text \<open>The names of the columns in which two rows differ.\<close>

definition changed :: "User \<Rightarrow> User \<Rightarrow> string list" where
  "changed a b =
     (if id' a \<noteq> id' b then [''id''] else []) @
     (if email a \<noteq> email b then [''email''] else []) @
     (if password a \<noteq> password b then [''password''] else []) @
     (if refreshToken a \<noteq> refreshToken b then [''refreshToken''] else []) @
     (if resetPasswordToken a \<noteq> resetPasswordToken b then [''resetPasswordToken''] else []) @
     (if resetPasswordExpires a \<noteq> resetPasswordExpires b then [''resetPasswordExpires''] else []) @
     (if emailVerificationOtp a \<noteq> emailVerificationOtp b then [''emailVerificationOtp''] else []) @
     (if emailVerificationExpires a \<noteq> emailVerificationExpires b
      then [''emailVerificationExpires''] else []) @
     (if isEmailVerified a \<noteq> isEmailVerified b then [''isEmailVerified''] else [])"

text \<open>
  What one request may do to the stored refresh tokens: a row afterwards holds no token, or
  the token that a row of the same account held before, or the token that the response
  hands out for that account; and a token handed out is stored on its account.
\<close>

definition tokens_ok :: "User list \<Rightarrow> response \<Rightarrow> User list \<Rightarrow> bool" where
  "tokens_ok db res db' \<longleftrightarrow>
     (\<forall>u' \<in> set db'. refreshToken u' = None
         \<or> (\<exists>u \<in> set db. id' u' = id' u \<and> refreshToken u' = refreshToken u)
         \<or> (\<exists>s e i k. issued_refresh res = Some (Jwt s e i k)
               \<and> refreshToken u' = Some (Jwt s e i k) \<and> id' u' = s))
   \<and> (\<forall>t. issued_refresh res = Some t \<longrightarrow>
         (\<exists>s e i k. t = Jwt s e i k) \<and> (\<exists>u' \<in> set db'. id' u' = sub t)
         \<and> (\<forall>u' \<in> set db'. id' u' = sub t \<longrightarrow> refreshToken u' = Some t))"

section \<open>A concrete deployment\<close>

definition cfg0 :: env where
  "cfg0 = \<lparr>jwtSecret = ''k'', accessTokenExpiresIn = 900, refreshTokenExpiresIn = 2592000,
           RESET_PASSWORD_EXPIRES_IN = 3600, IsEmail = (\<lambda>s. CHR ''@'' \<in> set s)\<rparr>"

definition world_at :: "int \<Rightarrow> world" where
  "world_at t = \<lparr>Date_now = t, Math_random = 1 / 2, entropy = (\<lambda>i. of_nat i),
                 argonSalt = ''salt'', uuid = ''u1'', sendMailOk = True,
                 verifyIdToken = Payload (Some ''bob@example.com'')\<rparr>"

definition alice_token :: token where
  "alice_token = Jwt ''u1'' 2592005 5 ''k''"

text \<open>
  Alice as her registration at 5000 ms, the verification of her address at 5050 ms and a
  login at 5100 ms leave her: verified, holding the refresh token of that login, the code of her
  registration still stored.
\<close>

definition alice :: User where
  "alice = \<lparr>id' = ''u1'', email = ''alice@example.com'', password = Argon2 ''salt'' ''secret1'',
            refreshToken = Some alice_token, resetPasswordToken = None,
            resetPasswordExpires = None, emailVerificationOtp = Some ''550000'',
            emailVerificationExpires = Some 605000, isEmailVerified = True\<rparr>"

definition demo_run :: "(request \<times> world) list" where
  "demo_run =
     [(Register ''alice@example.com'' ''secret1'', world_at 5000),
      (VerifyOtp ''alice@example.com'' ''550000'', world_at 6000),
      (Login ''alice@example.com'' ''secret1'', world_at 7000)]"

definition mail_down :: world where
  "mail_down = (world_at 9000)\<lparr>sendMailOk := False\<rparr>"

definition alice_pending :: User where
  "alice_pending = \<lparr>id' = ''u1'', email = ''alice@example.com'',
                     password = Argon2 ''salt'' ''secret1'', refreshToken = None,
                     resetPasswordToken = None, resetPasswordExpires = None,
                     emailVerificationOtp = Some ''550000'',
                     emailVerificationExpires = Some 605000, isEmailVerified = False\<rparr>"

text \<open>Alice after she asked for a password reset at 9000 ms.\<close>

definition alice_reset_token :: string where
  "alice_reset_token = ''000102030405060708090a0b0c0d0e0f101112131415161718191a1b1c1d1e1f''"

definition alice_reset :: User where
  "alice_reset = alice\<lparr>resetPasswordToken := Some alice_reset_token,
                       resetPasswordExpires := Some 3609000\<rparr>"

section \<open>The repository: lemmas\<close>

lemma findOneBy_Some:
  "findOneBy p db = Some u \<Longrightarrow> p u \<and> u \<in> set db"
  unfolding findOneBy_def by (auto simp: find_Some_iff)

lemma findOneBy_None:
  "findOneBy p db = None \<longleftrightarrow> (\<forall>u \<in> set db. \<not> p u)"
  unfolding findOneBy_def by (auto simp: find_None_iff)

lemma findOneBy_id_save:
  "findOneBy (\<lambda>r. id' r = i) db = Some u \<Longrightarrow> id' u' = i \<Longrightarrow>
   findOneBy (\<lambda>r. id' r = i) (save u' db) = Some u'"
  unfolding findOneBy_def save_def
  by (induction db) (auto split: if_splits)

lemma in_save:
  "x \<in> set (save u' db) \<Longrightarrow> x = u' \<or> (x \<in> set db \<and> id' x \<noteq> id' u')"
  unfolding save_def by auto

lemma save_hit:
  "u \<in> set db \<Longrightarrow> id' u = id' u' \<Longrightarrow> u' \<in> set (save u' db)"
  unfolding save_def by force

lemma generateTokens_eq:
  "generateTokens cfg i c =
     (Jwt i (c div 1000 + accessTokenExpiresIn cfg) (c div 1000) (jwtSecret cfg),
      Jwt i (c div 1000 + refreshTokenExpiresIn cfg) (c div 1000) (jwtSecret cfg))"
  by (simp add: generateTokens_def sign_def Let_def)

lemma findOneBy_email_save:
  "findOneBy (\<lambda>r. email r = e) db = Some u \<Longrightarrow> id' u' = id' u \<Longrightarrow> email u' = e \<Longrightarrow>
   findOneBy (\<lambda>r. email r = e) (save u' db) = Some u'"
  unfolding findOneBy_def save_def
  by (induction db) (auto split: if_splits)

text \<open>What the three routes that assign \<^verbatim>\<open>undefined\<close> hand to the table.\<close>

lemma skip_undefined_logout:
  "skip_undefined user (user\<lparr>refreshToken := None\<rparr>) = user"
  by (cases user) (simp add: skip_undefined_def split: option.splits)

lemma skip_undefined_verify_otp:
  "skip_undefined user (user\<lparr>isEmailVerified := True, emailVerificationOtp := None,
                              emailVerificationExpires := None\<rparr>) =
     user\<lparr>isEmailVerified := True\<rparr>"
  by (cases user) (simp add: skip_undefined_def split: option.splits)

lemma skip_undefined_reset_password:
  "skip_undefined user (user\<lparr>password := h, resetPasswordToken := None,
                              resetPasswordExpires := None\<rparr>) =
     user\<lparr>password := h\<rparr>"
  by (cases user) (simp add: skip_undefined_def split: option.splits)

lemmas skip_undefined_simps =
  skip_undefined_logout skip_undefined_verify_otp skip_undefined_reset_password

lemma save_same:
  assumes "u \<in> set db" and "distinct (map id' db)"
  shows "save u db = db"
proof -
  from assms(2) have inj: "inj_on id' (set db)" by (simp add: distinct_map)
  have "(if id' row = id' u then u else row) = row" if "row \<in> set db" for row
    using inj_onD [OF inj _ that assms(1)] by auto
  then show ?thesis unfolding save_def by (intro map_idI)
qed

section \<open>Refresh\<close>

lemma refresh_accepted:
  assumes "refresh_account cfg db presented w = Some u"
  shows "refresh cfg db presented w =
           (Json 200 [(''message'', Str ''Tokens refreshed''),
                      (''accessToken'', Tok (fst (generateTokens cfg (id' u) (Date_now w)))),
                      (''refreshToken'', Tok (snd (generateTokens cfg (id' u) (Date_now w))))],
            save (u\<lparr>refreshToken := Some (snd (generateTokens cfg (id' u) (Date_now w)))\<rparr>) db)"
proof -
  from assms obtain tok where p: "presented = Some tok"
    by (cases presented) (auto simp: refresh_account_def)
  from assms p obtain s where v: "verify tok (jwtSecret cfg) (Date_now w) = Some s"
    by (auto simp: refresh_account_def split: option.splits)
  from assms p v have f: "findOneBy (\<lambda>u. id' u = s) db = Some u" and m: "refreshToken u = Some tok"
    by (auto simp: refresh_account_def split: option.splits if_splits)
  from v have "tok \<noteq> NotJwt []" by auto
  with p v f m show ?thesis
    by (simp add: refresh_def falsy_def split: prod.splits)
qed

lemma refresh_rejected:
  assumes "refresh_account cfg db presented w = None"
  shows "(fst (refresh cfg db presented w) = Json 401 [(''error'', Str ''Refresh token required'')]
          \<or> fst (refresh cfg db presented w) = Json 401 [(''error'', Str ''Invalid refresh token'')])
         \<and> snd (refresh cfg db presented w) = db"
  using assms
  by (auto simp: refresh_account_def refresh_def invalid_refresh_def
           split: option.splits if_splits)

lemmas scenario_defs = cfg0_def world_at_def alice_def alice_token_def

text \<open>
  What the route does in general. A refresh request is accepted exactly for the account
  whose stored token the presented token equals, after it has verified under the secret.
  If there is no such account (the token is missing, does not verify, names no account or
  differs from the stored one) the answer is a 401 and the table is unchanged. If there is
  one, the answer is a 200 carrying the pair that \<open>generateTokens\<close> makes for the
  account, and the refresh token of the pair is what the account stores afterwards.
\<close>

lemma refresh_rotates_or_rejects:
  "(refresh_account cfg db presented w = None \<longrightarrow>
      status (fst (refresh cfg db presented w)) = 401 \<and> snd (refresh cfg db presented w) = db)
   \<and> (\<forall>u. refresh_account cfg db presented w = Some u \<longrightarrow>
        refresh cfg db presented w =
          (Json 200 [(''message'', Str ''Tokens refreshed''),
                     (''accessToken'', Tok (fst (generateTokens cfg (id' u) (Date_now w)))),
                     (''refreshToken'', Tok (snd (generateTokens cfg (id' u) (Date_now w))))],
           save (u\<lparr>refreshToken := Some (snd (generateTokens cfg (id' u) (Date_now w)))\<rparr>) db)
        \<and> findOneBy (\<lambda>r. id' r = id' u) (snd (refresh cfg db presented w)) =
            Some (u\<lparr>refreshToken := Some (snd (generateTokens cfg (id' u) (Date_now w)))\<rparr>))"
proof (intro conjI impI allI)
  assume "refresh_account cfg db presented w = None"
  from refresh_rejected [OF this]
  show "status (fst (refresh cfg db presented w)) = 401"
    and "snd (refresh cfg db presented w) = db"
    by auto
next
  fix u
  assume a: "refresh_account cfg db presented w = Some u"
  let ?u' = "u\<lparr>refreshToken := Some (snd (generateTokens cfg (id' u) (Date_now w)))\<rparr>"
  show r: "refresh cfg db presented w =
          (Json 200 [(''message'', Str ''Tokens refreshed''),
                     (''accessToken'', Tok (fst (generateTokens cfg (id' u) (Date_now w)))),
                     (''refreshToken'', Tok (snd (generateTokens cfg (id' u) (Date_now w))))],
           save ?u' db)"
    by (rule refresh_accepted [OF a])
  from a have "findOneBy (\<lambda>r. id' r = id' u) db = Some u"
    by (auto simp: refresh_account_def split: option.splits if_splits dest: findOneBy_Some)
  then have "findOneBy (\<lambda>r. id' r = id' u) (save ?u' db) = Some ?u'"
    by (rule findOneBy_id_save) simp
  with r show "findOneBy (\<lambda>r. id' r = id' u) (snd (refresh cfg db presented w)) = Some ?u'"
    by simp
qed

text \<open>
  C1. On success the new refresh token is to replace the stored one, so that the old one is
  invalidated; the route's documentation says the same (\<^verbatim>\<open>Refresh tokens are single-use
  (invalidated after refresh)\<close>). The code at a failing input: Alice's token was issued in
  second 5. A refresh at 5999 ms, in the same second, is accepted, and the refresh token
  it generates and stores is the token she presented: the table is unchanged and the old
  refresh token is still the stored one.
\<close>

theorem refresh_in_issue_second_keeps_token:
  "refresh cfg0 [alice] (Some alice_token) (world_at 5999) =
     (Json 200 [(''message'', Str ''Tokens refreshed''),
                (''accessToken'', Tok (Jwt ''u1'' 905 5 ''k'')),
                (''refreshToken'', Tok alice_token)],
      [alice])"
  by (simp add: refresh_def falsy_def findOneBy_def generateTokens_def sign_def save_def
                scenario_defs)

section \<open>Single session\<close>

lemma tokens_ok_same: "issued_refresh res = None \<Longrightarrow> tokens_ok db res db"
  unfolding tokens_ok_def by auto

lemma tokens_ok_keep:
  assumes "issued_refresh res = None" and "u \<in> set db" and "id' u' = id' u"
    and "refreshToken u' = refreshToken u \<or> refreshToken u' = None"
  shows "tokens_ok db res (save u' db)"
proof -
  have "refreshToken x = None \<or> (\<exists>v \<in> set db. id' x = id' v \<and> refreshToken x = refreshToken v)"
    if "x \<in> set (save u' db)" for x
  proof -
    from in_save [OF that] show ?thesis
    proof
      assume "x = u'"
      with assms(2-4) show ?thesis by auto
    next
      assume "x \<in> set db \<and> id' x \<noteq> id' u'"
      then show ?thesis by auto
    qed
  qed
  with assms(1) show ?thesis unfolding tokens_ok_def by simp
qed

lemma tokens_ok_issue:
  assumes "issued_refresh res = Some (Jwt (id' u) e i k)" and "u \<in> set db"
  shows "tokens_ok db res (save (u\<lparr>refreshToken := Some (Jwt (id' u) e i k)\<rparr>) db)"
proof -
  let ?t = "Jwt (id' u) e i k"
  let ?u' = "u\<lparr>refreshToken := Some ?t\<rparr>"
  have hit: "?u' \<in> set (save ?u' db)" using assms(2) by (auto intro: save_hit)
  have cases: "x = ?u' \<or> (x \<in> set db \<and> id' x \<noteq> id' u)" if "x \<in> set (save ?u' db)" for x
    using in_save [OF that] by simp
  have 1: "refreshToken x = None
         \<or> (\<exists>v \<in> set db. id' x = id' v \<and> refreshToken x = refreshToken v)
         \<or> (\<exists>s e i k. issued_refresh res = Some (Jwt s e i k) \<and> refreshToken x = Some (Jwt s e i k) \<and> id' x = s)"
    if "x \<in> set (save ?u' db)" for x
  proof -
    from cases [OF that] show ?thesis
    proof
      assume "x = ?u'"
      with assms(1) show ?thesis by simp
    next
      assume "x \<in> set db \<and> id' x \<noteq> id' u"
      then show ?thesis by auto
    qed
  qed
  have 2: "\<exists>x \<in> set (save ?u' db). id' x = sub ?t"
    using hit by (intro bexI [of _ ?u']) simp_all
  have 3: "refreshToken x = Some ?t" if "x \<in> set (save ?u' db)" and "id' x = sub ?t" for x
    using cases [OF that(1)] that(2) by auto
  show ?thesis
    unfolding tokens_ok_def
  proof (intro conjI ballI allI impI)
    fix x assume "x \<in> set (save ?u' db)"
    then show "refreshToken x = None
         \<or> (\<exists>v \<in> set db. id' x = id' v \<and> refreshToken x = refreshToken v)
         \<or> (\<exists>s e i k. issued_refresh res = Some (Jwt s e i k) \<and> refreshToken x = Some (Jwt s e i k) \<and> id' x = s)"
      by (rule 1)
  next
    fix t assume "issued_refresh res = Some t"
    with assms(1) have t: "t = ?t" by simp
    then show "\<exists>s e i k. t = Jwt s e i k" by blast
    from t 2 show "\<exists>x \<in> set (save ?u' db). id' x = sub t" by simp
    fix x assume "x \<in> set (save ?u' db)" "id' x = sub t"
    with t 3 show "refreshToken x = Some t" by simp
  qed
qed


lemma login_tokens: "login cfg db e p w = (res, db') \<Longrightarrow> tokens_ok db res db'"
  unfolding login_def
  by (auto simp: tokens_ok_same tokens_ok_issue generateTokens_eq split: if_splits option.splits
      dest!: findOneBy_Some)


lemma refresh_tokens: "refresh cfg db t w = (res, db') \<Longrightarrow> tokens_ok db res db'"
  unfolding refresh_def
  by (auto simp: tokens_ok_same tokens_ok_issue generateTokens_eq invalid_refresh_def split: if_splits option.splits
      dest!: findOneBy_Some)

lemma logout_tokens: "logout cfg db t w = (res, db') \<Longrightarrow> tokens_ok db res db'"
  unfolding logout_def
  by (auto simp: tokens_ok_same tokens_ok_keep skip_undefined_simps Let_def
      split: if_splits option.splits dest!: findOneBy_Some)

lemma verify_otp_tokens: "verify_otp cfg db e c w = (res, db') \<Longrightarrow> tokens_ok db res db'"
  unfolding verify_otp_def
  by (auto simp: tokens_ok_same tokens_ok_keep skip_undefined_simps Let_def
      split: if_splits option.splits dest!: findOneBy_Some)

lemma resend_otp_tokens: "resend_otp cfg db e w = (res, db') \<Longrightarrow> tokens_ok db res db'"
  unfolding resend_otp_def
  by (auto simp: tokens_ok_same tokens_ok_keep Let_def split: if_splits option.splits
      dest!: findOneBy_Some)

lemma forgot_tokens: "forgot_password cfg db e w = (res, db') \<Longrightarrow> tokens_ok db res db'"
  unfolding forgot_password_def
  by (auto simp: tokens_ok_same tokens_ok_keep Let_def neutral_message_def split: if_splits option.splits
      dest!: findOneBy_Some)

lemma reset_tokens: "reset_password cfg db t p w = (res, db') \<Longrightarrow> tokens_ok db res db'"
  unfolding reset_password_def
  by (auto simp: tokens_ok_same tokens_ok_keep skip_undefined_simps Let_def
      split: if_splits option.splits dest!: findOneBy_Some)

lemma me_tokens: "me cfg db h w = (res, db') \<Longrightarrow> tokens_ok db res db'"
  unfolding me_def authenticate_def
  by (auto simp: tokens_ok_same split: if_splits option.splits authorization.splits authenticated.splits)

lemma tokens_ok_append:
  "issued_refresh res = None \<Longrightarrow> refreshToken new = None \<Longrightarrow> tokens_ok db res (db @ [new])"
  unfolding tokens_ok_def by auto

lemma register_tokens: "register cfg db e p w = (res, db') \<Longrightarrow> tokens_ok db res db'"
  unfolding register_def
  by (auto simp: tokens_ok_same tokens_ok_append Let_def save_new_def create_def split: if_splits option.splits)


lemma google_issue_tokens:
  "u \<in> set db \<Longrightarrow> google_issue cfg db u w = (res, db') \<Longrightarrow> tokens_ok db res db'"
  unfolding google_issue_def
  by (auto simp: generateTokens_eq tokens_ok_issue)

lemma tokens_ok_after_insert:
  assumes "tokens_ok (db @ [new]) res db'" and "refreshToken new = None"
  shows "tokens_ok db res db'"
  using assms unfolding tokens_ok_def
  apply (intro conjI)
   apply (rule ballI)
   apply (elim conjE)
   apply (drule_tac x=u' in bspec, assumption)
   apply (auto)[1]
  apply blast
  done

lemma google_new_tokens:
  assumes "save_new i user db = Some (saved, db1)" and "refreshToken user = None"
    and "google_issue cfg db1 saved w = (res, db')"
  shows "tokens_ok db res db'"
proof -
  from assms(1) have db1: "db1 = db @ [saved]" and s: "saved = user\<lparr>id' := i\<rparr>"
    by (auto simp: save_new_def split: if_splits)
  then have "saved \<in> set db1" by simp
  from google_issue_tokens [OF this assms(3)] have "tokens_ok (db @ [saved]) res db'"
    by (simp add: db1)
  moreover from s assms(2) have "refreshToken saved = None" by simp
  ultimately show ?thesis by (rule tokens_ok_after_insert)
qed

lemma google_cases:
  assumes "google cfg db t w = (res, db')"
  obtains (unchanged) "db' = db" and "res = NextErr \<or> (\<exists>msg. res = Json 400 [(''error'', Str msg)])"
  | (existing) u where "t \<noteq> []" and "verifyIdToken w = Payload (Some (email u))"
      and "email u \<noteq> []" and "findOneBy (\<lambda>r. email r = email u) db = Some u"
      and "google_issue cfg db u w = (res, db')"
  | (created) e saved db1 where "t \<noteq> []" and "verifyIdToken w = Payload (Some e)" and "e \<noteq> []"
      and "findOneBy (\<lambda>r. email r = e) db = None"
      and "save_new (uuid w)
             (create e (argon2_hash (argonSalt w) (toHex (randomBytes w 16)))) db = Some (saved, db1)"
      and "google_issue cfg db1 saved w = (res, db')"
proof (cases "t = []")
  case True
  with assms unchanged show ?thesis by (auto simp: google_def)
next
  case t: False
  show ?thesis
  proof (cases "verifyIdToken w")
    case Throws
    with assms t unchanged show ?thesis by (auto simp: google_def)
  next
    case NoPayload
    with assms t unchanged show ?thesis by (auto simp: google_def)
  next
    case (Payload eo)
    show ?thesis
    proof (cases eo)
      case None
      with assms t Payload unchanged show ?thesis by (auto simp: google_def)
    next
      case (Some e)
      show ?thesis
      proof (cases "e = []")
        case True
        with assms t Payload Some unchanged show ?thesis by (auto simp: google_def)
      next
        case e: False
        show ?thesis
        proof (cases "findOneBy (\<lambda>r. email r = e) db")
          case (Some u)
          from findOneBy_Some [OF this] have eu: "email u = e" by simp
          from assms t Payload \<open>eo = Some e\<close> e Some
          have "google_issue cfg db u w = (res, db')" by (simp add: google_def)
          with t Payload \<open>eo = Some e\<close> e Some eu show ?thesis by (intro existing [of u]) simp_all
        next
          case None
          let ?user = "create e (argon2_hash (argonSalt w) (toHex (randomBytes w 16)))"
          show ?thesis
          proof (cases "save_new (uuid w) ?user db")
            case n: None
            with assms t Payload \<open>eo = Some e\<close> e None unchanged show ?thesis
              by (auto simp: google_def)
          next
            case (Some p)
            obtain saved db1 where p: "p = (saved, db1)" by (cases p)
            from assms t Payload \<open>eo = Some e\<close> e None Some p
            have "google_issue cfg db1 saved w = (res, db')" by (simp add: google_def)
            with t Payload \<open>eo = Some e\<close> e None Some p show ?thesis
              by (intro created [of e saved db1]) simp_all
          qed
        qed
      qed
    qed
  qed
qed

lemma google_tokens:
  assumes "google cfg db t w = (res, db')"
  shows "tokens_ok db res db'"
  using assms
proof (cases rule: google_cases)
  case unchanged
  then show ?thesis by (auto simp: tokens_ok_same)
next
  case (existing u)
  from findOneBy_Some [OF existing(4)] have "u \<in> set db" by simp
  then show ?thesis using existing(5) by (rule google_issue_tokens)
next
  case (created e saved db1)
  from created(5) _ created(6) show ?thesis
    by (rule google_new_tokens) (simp add: create_def)
qed

lemma handle_tokens: "handle cfg db r w = (res, db') \<Longrightarrow> tokens_ok db res db'"
  by (cases r)
     (simp_all add: register_tokens login_tokens verify_otp_tokens resend_otp_tokens
        refresh_tokens logout_tokens google_tokens forgot_tokens reset_tokens me_tokens)

lemma single_session_step:
  assumes inv: "single_session db latest" and ok: "tokens_ok db res db'"
  shows "single_session db' (note_issued res latest)"
  unfolding single_session_def
proof
  fix x assume x: "x \<in> set db'"
  from ok x have c: "refreshToken x = None
         \<or> (\<exists>v \<in> set db. id' x = id' v \<and> refreshToken x = refreshToken v)
         \<or> (\<exists>s e i k. issued_refresh res = Some (Jwt s e i k) \<and> refreshToken x = Some (Jwt s e i k) \<and> id' x = s)"
    unfolding tokens_ok_def by blast
  show "refreshToken x = None \<or> refreshToken x = note_issued res latest (id' x)"
  proof (cases "issued_refresh res")
    case None
    then have n: "note_issued res latest = latest" by (simp add: note_issued_def)
    from c None inv show ?thesis unfolding n single_session_def by auto
  next
    case (Some t)
    with ok obtain s e i k where t: "t = Jwt s e i k"
      and all: "\<forall>u' \<in> set db'. id' u' = s \<longrightarrow> refreshToken u' = Some t"
      unfolding tokens_ok_def by force
    from Some t have n: "note_issued res latest = latest(s \<mapsto> t)" by (simp add: note_issued_def)
    show ?thesis
    proof (cases "id' x = s")
      case True
      with all x n show ?thesis by simp
    next
      case False
      with c Some t inv n show ?thesis unfolding single_session_def by auto
    qed
  qed
qed

lemma single_session_run:
  "single_session db latest \<Longrightarrow> run cfg (db, latest) rs = (db', latest') \<Longrightarrow> single_session db' latest'"
proof (induction rs arbitrary: db latest)
  case Nil
  then show ?case by simp
next
  case (Cons a rs)
  obtain r w where a: "a = (r, w)" by (cases a)
  obtain res db1 where h: "handle cfg db r w = (res, db1)" by (cases "handle cfg db r w")
  from Cons.prems(1) handle_tokens [OF h] have "single_session db1 (note_issued res latest)"
    by (rule single_session_step)
  moreover from Cons.prems(2) a h have "run cfg (db1, note_issued res latest) rs = (db', latest')"
    by simp
  ultimately show ?case by (rule Cons.IH)
qed

text \<open>
  In every state reached from the empty table by serving requests, whatever they are and
  whatever the clock and the random sources return, a stored refresh token is the refresh
  token most recently handed out for that account. Only login, refresh and Google sign-in
  hand out a refresh token, and the token a response hands out is, in the table the same
  request leaves, stored on the account it is for.
\<close>

lemma stored_token_is_latest_issued:
  "(\<forall>db latest. run cfg ([], Map.empty) rs = (db, latest) \<longrightarrow> single_session db latest)
   \<and> (\<forall>res db' t. handle cfg db r w = (res, db') \<and> issued_refresh res = Some t \<longrightarrow>
          ((\<exists>e p. r = Login e p) \<or> (\<exists>x. r = Refresh x) \<or> (\<exists>x. r = Google x))
          \<and> (\<exists>u \<in> set db'. id' u = sub t)
          \<and> (\<forall>u \<in> set db'. id' u = sub t \<longrightarrow> refreshToken u = Some t))"
proof (intro conjI allI impI)
  fix db' latest
  assume "run cfg ([], Map.empty) rs = (db', latest)"
  moreover have "single_session [] Map.empty" by (simp add: single_session_def)
  ultimately show "single_session db' latest" by (rule single_session_run [rotated])
next
  fix res db' t
  assume a: "handle cfg db r w = (res, db') \<and> issued_refresh res = Some t"
  then have h: "handle cfg db r w = (res, db')" and t: "issued_refresh res = Some t" by simp_all
  from handle_tokens [OF h] t
  show "\<exists>u \<in> set db'. id' u = sub t" and "\<forall>u \<in> set db'. id' u = sub t \<longrightarrow> refreshToken u = Some t"
    unfolding tokens_ok_def by blast+
  show "(\<exists>e p. r = Login e p) \<or> (\<exists>x. r = Refresh x) \<or> (\<exists>x. r = Google x)"
  proof (cases r)
    case (Register e p)
    with h t show ?thesis
      by (auto simp: register_def Let_def split: if_splits option.splits)
  next
    case (VerifyOtp e c)
    with h t show ?thesis
      by (auto simp: verify_otp_def split: if_splits option.splits)
  next
    case (ResendOtp e)
    with h t show ?thesis
      by (auto simp: resend_otp_def Let_def split: if_splits option.splits)
  next
    case (Logout x)
    with h t show ?thesis by (auto simp: logout_def)
  next
    case (ForgotPassword e)
    with h t show ?thesis
      by (auto simp: forgot_password_def Let_def neutral_message_def
               split: if_splits option.splits)
  next
    case (ResetPassword x p)
    with h t show ?thesis
      by (auto simp: reset_password_def split: if_splits option.splits)
  next
    case (Me x)
    with h t show ?thesis
      by (auto simp: me_def authenticate_def
               split: if_splits option.splits authorization.splits)
  qed simp_all
qed

text \<open>
  What logout does to a table whose identifiers are distinct, whatever the request:
  nothing.
\<close>

lemma logout_unchanged:
  assumes "distinct (map id' db)"
  shows "logout cfg db t w = (Json 200 [(''message'', Str ''Logged out'')], db)"
  using assms
  by (auto simp: logout_def Let_def skip_undefined_simps save_same
      split: option.splits dest!: findOneBy_Some)

text \<open>
  C3. Logout is to clear the stored refresh token; the route's documentation says the same
  (\<^verbatim>\<open>Invalidates the refresh token on the server\<close>). The code at a failing input: Alice
  logs out with her refresh token. The answer is \<^verbatim>\<open>Logged out\<close>, but the property the
  route assigned is \<^verbatim>\<open>undefined\<close>, the save writes nothing, and the table still stores the
  token. A refresh that presents it a second later is accepted and hands out a new pair.
\<close>

theorem logout_keeps_refresh_token:
  "logout cfg0 [alice] (Some alice_token) (world_at 7000) =
     (Json 200 [(''message'', Str ''Logged out'')], [alice])
   \<and> refreshToken alice = Some alice_token
   \<and> refresh cfg0 (snd (logout cfg0 [alice] (Some alice_token) (world_at 7000)))
         (Some alice_token) (world_at 8000) =
       (Json 200 [(''message'', Str ''Tokens refreshed''),
                  (''accessToken'', Tok (Jwt ''u1'' 908 8 ''k'')),
                  (''refreshToken'', Tok (Jwt ''u1'' 2592008 8 ''k''))],
        [alice\<lparr>refreshToken := Some (Jwt ''u1'' 2592008 8 ''k'')\<rparr>])"
  by (simp add: logout_def refresh_def falsy_def findOneBy_def generateTokens_def sign_def
                save_def skip_undefined_def Let_def scenario_defs)

section \<open>Reuse of a refresh token\<close>

text \<open>
  C2, evaluated where it fails. Alice logs in during second 5 and is handed a refresh
  token. She refreshes within the same second: the request is accepted and the token
  generated is the very token she presented, so the table still stores it. The token
  from before the rotation is then accepted once more, 54 seconds later.
\<close>

theorem refresh_token_reuse_after_rotation:
  "login cfg0 [alice\<lparr>refreshToken := None\<rparr>] ''alice@example.com'' ''secret1'' (world_at 5100) =
     (Json 200 [(''message'', Str ''Logged in''),
                (''user'', Obj [(''id'', Str ''u1''), (''email'', Str ''alice@example.com'')]),
                (''accessToken'', Tok (Jwt ''u1'' 905 5 ''k'')),
                (''refreshToken'', Tok alice_token)],
      [alice])
   \<and> refresh cfg0 [alice] (Some alice_token) (world_at 5900) =
     (Json 200 [(''message'', Str ''Tokens refreshed''),
                (''accessToken'', Tok (Jwt ''u1'' 905 5 ''k'')),
                (''refreshToken'', Tok alice_token)],
      [alice])
   \<and> refresh cfg0 [alice] (Some alice_token) (world_at 60000) =
     (Json 200 [(''message'', Str ''Tokens refreshed''),
                (''accessToken'', Tok (Jwt ''u1'' 960 60 ''k'')),
                (''refreshToken'', Tok (Jwt ''u1'' 2592060 60 ''k''))],
      [alice\<lparr>refreshToken := Some (Jwt ''u1'' 2592060 60 ''k'')\<rparr>])"
  by (simp add: login_def validate_LoginDTO_def IsNotEmpty_def argon2_verify_def
        refresh_def falsy_def findOneBy_def generateTokens_eq save_def scenario_defs)

lemma issued_refresh_iat:
  assumes "handle cfg db r w = (res, db')" and "issued_refresh res = Some t"
  shows "iat t = Date_now w div 1000"
proof (cases r)
  case (Register e p)
  with assms show ?thesis
    by (auto simp: register_def Let_def split: if_splits option.splits)
next
  case (Login e p)
  with assms show ?thesis
    by (auto simp: login_def generateTokens_eq split: if_splits option.splits)
next
  case (VerifyOtp e c)
  with assms show ?thesis
    by (auto simp: verify_otp_def split: if_splits option.splits)
next
  case (ResendOtp e)
  with assms show ?thesis
    by (auto simp: resend_otp_def Let_def split: if_splits option.splits)
next
  case (Refresh x)
  with assms show ?thesis
    by (auto simp: refresh_def generateTokens_eq invalid_refresh_def
             split: if_splits option.splits)
next
  case (Logout x)
  with assms show ?thesis by (auto simp: logout_def)
next
  case (Google x)
  with assms have "google cfg db x w = (res, db')" by simp
  then show ?thesis
  proof (cases rule: google_cases)
    case unchanged
    with assms(2) show ?thesis by auto
  next
    case (existing u)
    with assms(2) show ?thesis by (auto simp: google_issue_def generateTokens_eq)
  next
    case (created e saved db1)
    with assms(2) show ?thesis by (auto simp: google_issue_def generateTokens_eq)
  qed
next
  case (ForgotPassword e)
  with assms show ?thesis
    by (auto simp: forgot_password_def Let_def neutral_message_def
             split: if_splits option.splits)
next
  case (ResetPassword x p)
  with assms show ?thesis
    by (auto simp: reset_password_def split: if_splits option.splits)
next
  case (Me x)
  with assms show ?thesis
    by (auto simp: me_def authenticate_def
             split: if_splits option.splits authorization.splits)
qed

lemma not_stored_step:
  assumes h: "handle cfg db r w = (res, db')"
    and inv: "\<forall>row \<in> set db. id' row = sub T \<longrightarrow> refreshToken row \<noteq> Some T"
    and later: "iat T < Date_now w div 1000"
  shows "\<forall>row \<in> set db'. id' row = sub T \<longrightarrow> refreshToken row \<noteq> Some T"
proof (intro ballI impI)
  fix row assume row: "row \<in> set db'" and i: "id' row = sub T"
  from handle_tokens [OF h] row
  have "refreshToken row = None
         \<or> (\<exists>v \<in> set db. id' row = id' v \<and> refreshToken row = refreshToken v)
         \<or> (\<exists>s e j k. issued_refresh res = Some (Jwt s e j k)
               \<and> refreshToken row = Some (Jwt s e j k) \<and> id' row = s)"
    unfolding tokens_ok_def by blast
  then show "refreshToken row \<noteq> Some T"
  proof (elim disjE bexE exE conjE)
    assume "refreshToken row = None"
    then show ?thesis by simp
  next
    fix v assume "v \<in> set db" "id' row = id' v" "refreshToken row = refreshToken v"
    with inv i show ?thesis by auto
  next
    fix s e j k
    assume t: "issued_refresh res = Some (Jwt s e j k)"
      and r: "refreshToken row = Some (Jwt s e j k)"
    from issued_refresh_iat [OF h t] have "j = Date_now w div 1000" by simp
    with later have "Jwt s e j k \<noteq> T" by auto
    with r show ?thesis by simp
  qed
qed

lemma not_stored_run:
  assumes "\<forall>row \<in> set db. id' row = sub T \<longrightarrow> refreshToken row \<noteq> Some T"
    and "\<forall>(r, w) \<in> set rs. iat T < Date_now w div 1000"
    and "run cfg (db, latest) rs = (db', latest')"
  shows "\<forall>row \<in> set db'. id' row = sub T \<longrightarrow> refreshToken row \<noteq> Some T"
  using assms
proof (induction rs arbitrary: db latest)
  case Nil
  then show ?case by simp
next
  case (Cons a rs)
  obtain r w where a: "a = (r, w)" by (cases a)
  obtain res db1 where h: "handle cfg db r w = (res, db1)" by (cases "handle cfg db r w")
  from Cons.prems(2) a have l: "iat T < Date_now w div 1000" by simp
  from h Cons.prems(1) l
  have "\<forall>row \<in> set db1. id' row = sub T \<longrightarrow> refreshToken row \<noteq> Some T"
    by (rule not_stored_step)
  moreover from Cons.prems(2) have "\<forall>(r, w) \<in> set rs. iat T < Date_now w div 1000" by simp
  moreover from Cons.prems(3) a h have "run cfg (db1, note_issued res latest) rs = (db', latest')"
    by simp
  ultimately show ?case by (rule Cons.IH)
qed

lemma refresh_not_stored:
  assumes "\<forall>row \<in> set db. id' row = sub T \<longrightarrow> refreshToken row \<noteq> Some T"
  shows "refresh_account cfg db (Some T) w = None"
proof (cases "verify T (jwtSecret cfg) (Date_now w)")
  case None
  then show ?thesis by (simp add: refresh_account_def)
next
  case (Some s)
  then have s: "s = sub T" by (cases T) (auto split: if_splits)
  show ?thesis
  proof (cases "findOneBy (\<lambda>u. id' u = s) db")
    case None
    with Some show ?thesis by (simp add: refresh_account_def)
  next
    case (Some u)
    from findOneBy_Some [OF Some] s assms have "refreshToken u \<noteq> Some T" by auto
    with Some \<open>verify T (jwtSecret cfg) (Date_now w) = Some s\<close> show ?thesis
      by (simp add: refresh_account_def)
  qed
qed

text \<open>
  Where the defect does not strike: when a refresh is accepted in a later clock second than
  the one in which the presented token was issued, and the clock does not fall back below
  that, the presented token is turned away with a 401 in every state that later requests
  lead to.
\<close>

lemma rotated_token_rejected_in_later_seconds:
  assumes acc: "refresh_account cfg db (Some T) w = Some u"
    and later: "iat T < Date_now w div 1000"
    and clocks: "\<forall>(r, w') \<in> set rs. iat T < Date_now w' div 1000"
    and run: "run cfg (snd (refresh cfg db (Some T) w), latest) rs = (db', latest')"
  shows "status (fst (refresh cfg db' (Some T) w'')) = 401"
    and "snd (refresh cfg db' (Some T) w'') = db'"
    and "issued_refresh (fst (refresh cfg db' (Some T) w'')) = None"
proof -
  let ?new = "snd (generateTokens cfg (id' u) (Date_now w))"
  let ?u' = "u\<lparr>refreshToken := Some ?new\<rparr>"
  from acc obtain s where v: "verify T (jwtSecret cfg) (Date_now w) = Some s"
    and f: "findOneBy (\<lambda>u. id' u = s) db = Some u"
    by (auto simp: refresh_account_def split: option.splits if_splits)
  from v have s: "s = sub T" by (cases T) (auto split: if_splits)
  from findOneBy_Some [OF f] s have iu: "id' u = sub T" by simp
  from later have ne: "?new \<noteq> T" by (auto simp: generateTokens_eq)
  have db1: "snd (refresh cfg db (Some T) w) = save ?u' db"
    by (simp add: refresh_accepted [OF acc])
  have "\<forall>row \<in> set (save ?u' db). id' row = sub T \<longrightarrow> refreshToken row \<noteq> Some T"
  proof (intro ballI impI)
    fix row assume "row \<in> set (save ?u' db)" and "id' row = sub T"
    with in_save [of row ?u' db] iu have "row = ?u'" by auto
    with ne show "refreshToken row \<noteq> Some T" by simp
  qed
  from this clocks run [unfolded db1]
  have "\<forall>row \<in> set db'. id' row = sub T \<longrightarrow> refreshToken row \<noteq> Some T"
    by (rule not_stored_run)
  then have n: "refresh_account cfg db' (Some T) w'' = None" by (rule refresh_not_stored)
  from refresh_rejected [OF n]
  show "status (fst (refresh cfg db' (Some T) w'')) = 401"
    and "snd (refresh cfg db' (Some T) w'') = db'"
    and "issued_refresh (fst (refresh cfg db' (Some T) w'')) = None"
    by auto
qed

section \<open>Forgotten passwords\<close>

text \<open>
  When the mailer delivers, the answer to a request that names an email is the neutral
  message, whether or not the email is registered.
\<close>

lemma forgot_password_neutral_when_mail_delivers:
  "body_email \<noteq> [] \<Longrightarrow> sendMailOk w \<Longrightarrow>
   fst (forgot_password cfg db body_email w) = neutral_message"
  by (simp add: forgot_password_def Let_def split: option.splits)

text \<open>
  C6, evaluated where it fails. While the mailer is down, a request for Alice's registered
  address stores a reset token and then passes the mailer's error to the error handler,
  and a request for an address nobody registered is answered with the neutral 200.
\<close>

theorem forgot_password_differs_when_mail_fails:
  "forgot_password cfg0 [alice] ''alice@example.com'' mail_down =
     (NextErr,
      [alice\<lparr>resetPasswordToken :=
                Some ''000102030405060708090a0b0c0d0e0f101112131415161718191a1b1c1d1e1f'',
              resetPasswordExpires := Some 3609000\<rparr>])
   \<and> forgot_password cfg0 [alice] ''nobody@example.com'' mail_down =
     (Json 200 [(''message'', Str ''If that email is registered, a reset link has been sent.'')],
      [alice])"
  by (simp add: forgot_password_def findOneBy_def save_def neutral_message_def mail_down_def
        toHex_def randomBytes_def hexChar_def upt_rec scenario_defs)

section \<open>Authentication failures\<close>

lemma login_rejects_bad_credentials:
  assumes "findOneBy (\<lambda>u. email u = e) db = None
           \<or> (\<exists>u. findOneBy (\<lambda>u. email u = e) db = Some u \<and> \<not> argon2_verify (password u) p)"
  shows "status (fst (login cfg db e p w)) = 400"
    and "snd (login cfg db e p w) = db"
    and "issued_access (fst (login cfg db e p w)) = None"
    and "issued_refresh (fst (login cfg db e p w)) = None"
    and "validate_LoginDTO cfg e p = [] \<Longrightarrow>
         fst (login cfg db e p w) = Json 400 [(''error'', Str ''Invalid credentials'')]"
  using assms by (auto simp: login_def)

lemma authenticate_granted:
  "authenticate cfg db h w = Granted u \<longleftrightarrow>
     (\<exists>tok. h = Some (Header ''Bearer '' tok)
        \<and> (\<exists>s. verify tok (jwtSecret cfg) (Date_now w) = Some s
               \<and> findOneBy (\<lambda>r. id' r = s) db = Some u))"
  by (auto simp: authenticate_def split: option.splits authorization.splits if_splits)

lemma authenticate_denied:
  "(\<forall>u. authenticate cfg db h w \<noteq> Granted u) \<Longrightarrow>
   \<exists>msg. authenticate cfg db h w = Denied (Json 401 [(''error'', Str msg)])"
  by (auto simp: authenticate_def split: option.splits authorization.splits if_splits)

text \<open>
  C7 (as amended). A login with an unknown email or a wrong password is answered with
  status 400 and changes nothing; when the body passes validation the answer is the same
  generic ``Invalid credentials'' in both cases. A request to a protected endpoint that
  carries no bearer token which verifies and names a stored account is answered by the
  middleware with a 401. A refresh request whose token is missing, does not verify or is
  not the stored one is answered with a 401 and changes nothing.
\<close>

theorem authentication_failures:
  "((findOneBy (\<lambda>u. email u = e) db = None
      \<or> (\<exists>u. findOneBy (\<lambda>u. email u = e) db = Some u \<and> \<not> argon2_verify (password u) p))
     \<longrightarrow> status (fst (login cfg db e p w)) = 400 \<and> snd (login cfg db e p w) = db
         \<and> (validate_LoginDTO cfg e p = [] \<longrightarrow>
              fst (login cfg db e p w) = Json 400 [(''error'', Str ''Invalid credentials'')]))
   \<and> ((\<forall>tok s u. h = Some (Header ''Bearer '' tok)
           \<and> verify tok (jwtSecret cfg) (Date_now w) = Some s
           \<longrightarrow> findOneBy (\<lambda>r. id' r = s) db \<noteq> Some u)
        \<longrightarrow> (\<exists>msg. authenticate cfg db h w = Denied (Json 401 [(''error'', Str msg)]))
            \<and> (\<exists>msg. me cfg db h w = (Json 401 [(''error'', Str msg)], db)))
   \<and> (refresh_account cfg db presented w = None
        \<longrightarrow> status (fst (refresh cfg db presented w)) = 401
            \<and> snd (refresh cfg db presented w) = db)"
proof (intro conjI impI)
  assume a: "findOneBy (\<lambda>u. email u = e) db = None
      \<or> (\<exists>u. findOneBy (\<lambda>u. email u = e) db = Some u \<and> \<not> argon2_verify (password u) p)"
  from login_rejects_bad_credentials(1,2) [OF a]
  show "status (fst (login cfg db e p w)) = 400" and "snd (login cfg db e p w) = db" .
  assume "validate_LoginDTO cfg e p = []"
  with a show "fst (login cfg db e p w) = Json 400 [(''error'', Str ''Invalid credentials'')]"
    by (rule login_rejects_bad_credentials(5))
next
  assume a: "\<forall>tok s u. h = Some (Header ''Bearer '' tok)
           \<and> verify tok (jwtSecret cfg) (Date_now w) = Some s
           \<longrightarrow> findOneBy (\<lambda>r. id' r = s) db \<noteq> Some u"
  then have "\<forall>u. authenticate cfg db h w \<noteq> Granted u"
    unfolding authenticate_granted by blast
  from authenticate_denied [OF this]
  show d: "\<exists>msg. authenticate cfg db h w = Denied (Json 401 [(''error'', Str msg)])" .
  then show "\<exists>msg. me cfg db h w = (Json 401 [(''error'', Str msg)], db)"
    by (auto simp: me_def)
next
  assume "refresh_account cfg db presented w = None"
  from refresh_rejected [OF this]
  show "status (fst (refresh cfg db presented w)) = 401"
    and "snd (refresh cfg db presented w) = db" by auto
qed

text \<open>
  Witness for C7: a wrong password, a missing header, a bearer string that is no token,
  and a refresh request without a token.
\<close>

theorem authentication_failures_witness:
  "status (fst (login cfg0 [alice] ''alice@example.com'' ''wrong'' (world_at 7000))) = 400
   \<and> authenticate cfg0 [alice] None (world_at 7000)
       = Denied (Json 401 [(''error'', Str ''Authorization header required'')])
   \<and> authenticate cfg0 [alice] (Some (Header ''Bearer '' (NotJwt ''abc''))) (world_at 7000)
       = Denied (Json 401 [(''error'', Str ''Invalid token'')])
   \<and> status (fst (refresh cfg0 [alice] None (world_at 7000))) = 401"
proof -
  have f: "findOneBy (\<lambda>u. email u = ''alice@example.com'') [alice] = Some alice"
    and nv: "\<not> argon2_verify (password alice) ''wrong''"
    by (simp_all add: findOneBy_def argon2_verify_def scenario_defs)
  have r: "refresh_account cfg0 [alice] None (world_at 7000) = None"
    by (simp add: refresh_account_def)
  from authentication_failures
         [of "''alice@example.com''" "[alice]" "''wrong''" cfg0 "world_at 7000" None None] f nv r
  have "status (fst (login cfg0 [alice] ''alice@example.com'' ''wrong'' (world_at 7000))) = 400"
    and "status (fst (refresh cfg0 [alice] None (world_at 7000))) = 401"
    by simp_all
  moreover have "authenticate cfg0 [alice] None (world_at 7000)
       = Denied (Json 401 [(''error'', Str ''Authorization header required'')])"
    and "authenticate cfg0 [alice] (Some (Header ''Bearer '' (NotJwt ''abc''))) (world_at 7000)
       = Denied (Json 401 [(''error'', Str ''Invalid token'')])"
    by (simp_all add: authenticate_def)
  ultimately show ?thesis by simp
qed

text \<open>
  Counterexample to C7 as stated: login answers an unknown email, and a wrong password,
  with status 400, not 401.
\<close>

theorem login_failure_counterexample:
  "login cfg0 [alice] ''nobody@example.com'' ''secret1'' (world_at 7000) =
     (Json 400 [(''error'', Str ''Invalid credentials'')], [alice])
   \<and> login cfg0 [alice] ''alice@example.com'' ''wrong'' (world_at 7000) =
     (Json 400 [(''error'', Str ''Invalid credentials'')], [alice])"
  by (simp add: login_def validate_LoginDTO_def IsNotEmpty_def findOneBy_def
        argon2_verify_def scenario_defs)

section \<open>Login of an unverified account\<close>

lemma login_unverified:
  assumes "findOneBy (\<lambda>u. email u = e) db = Some u" and "argon2_verify (password u) p"
    and "\<not> isEmailVerified u"
  shows "status (fst (login cfg db e p w)) = 400"
    and "issued_access (fst (login cfg db e p w)) = None"
    and "issued_refresh (fst (login cfg db e p w)) = None"
    and "snd (login cfg db e p w) = db"
    and "validate_LoginDTO cfg e p = [] \<Longrightarrow>
         fst (login cfg db e p w) =
               Json 400 [(''error'', Str ''Email not verified''),
                         (''message'', Str ''Please verify your email before logging in.''),
                         (''requiresVerification'', Bool True),
                         (''email'', Str (email u))]"
  using assms by (simp_all add: login_def)

lemma login_tokens_only_when_verified:
  assumes "issued_access (fst (login cfg db e p w)) \<noteq> None
           \<or> issued_refresh (fst (login cfg db e p w)) \<noteq> None"
  shows "\<exists>u. findOneBy (\<lambda>u. email u = e) db = Some u \<and> argon2_verify (password u) p
              \<and> isEmailVerified u"
proof (cases "validate_LoginDTO cfg e p = []")
  case False
  with assms show ?thesis by (simp add: login_def)
next
  case valid: True
  show ?thesis
  proof (cases "findOneBy (\<lambda>u. email u = e) db")
    case None
    with assms valid show ?thesis by (simp add: login_def)
  next
    case (Some u)
    show ?thesis
    proof (cases "argon2_verify (password u) p \<and> isEmailVerified u")
      case True
      with Some show ?thesis by simp
    next
      case False
      with assms valid Some show ?thesis by (auto simp: login_def split: if_splits)
    qed
  qed
qed

text \<open>
  C9. A login whose email names an account and whose password is the account's, while the
  account is not verified, is answered with status 400, hands out no token and leaves the
  table as it was; for a body that passes validation the answer is the one that carries
  \<^verbatim>\<open>requiresVerification: true\<close>. Whenever a login hands out a token, the account is
  verified.
\<close>

theorem login_requires_verified_email:
  "(\<forall>u. findOneBy (\<lambda>u. email u = e) db = Some u \<and> argon2_verify (password u) p
          \<and> \<not> isEmailVerified u \<longrightarrow>
        status (fst (login cfg db e p w)) = 400
        \<and> issued_access (fst (login cfg db e p w)) = None
        \<and> issued_refresh (fst (login cfg db e p w)) = None
        \<and> snd (login cfg db e p w) = db
        \<and> (validate_LoginDTO cfg e p = [] \<longrightarrow>
             fst (login cfg db e p w) =
               Json 400 [(''error'', Str ''Email not verified''),
                         (''message'', Str ''Please verify your email before logging in.''),
                         (''requiresVerification'', Bool True),
                         (''email'', Str (email u))]))
   \<and> (issued_access (fst (login cfg db e p w)) \<noteq> None
        \<or> issued_refresh (fst (login cfg db e p w)) \<noteq> None \<longrightarrow>
       (\<exists>u. findOneBy (\<lambda>u. email u = e) db = Some u \<and> argon2_verify (password u) p
              \<and> isEmailVerified u))"
proof (intro conjI allI impI)
  fix u
  assume "findOneBy (\<lambda>u. email u = e) db = Some u \<and> argon2_verify (password u) p
          \<and> \<not> isEmailVerified u"
  then have f: "findOneBy (\<lambda>u. email u = e) db = Some u"
    and v: "argon2_verify (password u) p" and n: "\<not> isEmailVerified u" by simp_all
  from f v n show "status (fst (login cfg db e p w)) = 400" by (rule login_unverified)
  from f v n show "issued_access (fst (login cfg db e p w)) = None" by (rule login_unverified)
  from f v n show "issued_refresh (fst (login cfg db e p w)) = None" by (rule login_unverified)
  from f v n show "snd (login cfg db e p w) = db" by (rule login_unverified)
  assume "validate_LoginDTO cfg e p = []"
  with f v n show "fst (login cfg db e p w) =
               Json 400 [(''error'', Str ''Email not verified''),
                         (''message'', Str ''Please verify your email before logging in.''),
                         (''requiresVerification'', Bool True),
                         (''email'', Str (email u))]"
    by (rule login_unverified)
next
  assume "issued_access (fst (login cfg db e p w)) \<noteq> None
        \<or> issued_refresh (fst (login cfg db e p w)) \<noteq> None"
  then show "\<exists>u. findOneBy (\<lambda>u. email u = e) db = Some u \<and> argon2_verify (password u) p
              \<and> isEmailVerified u"
    by (rule login_tokens_only_when_verified)
qed

text \<open>
  Witness for C9: Alice with the right password, before and after her address is verified.
\<close>

theorem login_requires_verified_email_witness:
  "login cfg0 [alice\<lparr>isEmailVerified := False\<rparr>] ''alice@example.com'' ''secret1'' (world_at 7000) =
     (Json 400 [(''error'', Str ''Email not verified''),
                (''message'', Str ''Please verify your email before logging in.''),
                (''requiresVerification'', Bool True),
                (''email'', Str ''alice@example.com'')],
      [alice\<lparr>isEmailVerified := False\<rparr>])
   \<and> issued_refresh (fst (login cfg0 [alice] ''alice@example.com'' ''secret1'' (world_at 7000)))
       = Some (Jwt ''u1'' 2592007 7 ''k'')
   \<and> isEmailVerified alice"
proof -
  let ?db = "[alice\<lparr>isEmailVerified := False\<rparr>]"
  have f: "findOneBy (\<lambda>u. email u = ''alice@example.com'') ?db = Some (alice\<lparr>isEmailVerified := False\<rparr>)"
    and v: "argon2_verify (password (alice\<lparr>isEmailVerified := False\<rparr>)) ''secret1''"
    and d: "validate_LoginDTO cfg0 ''alice@example.com'' ''secret1'' = []"
    and e: "email alice = ''alice@example.com''"
    by (simp_all add: findOneBy_def argon2_verify_def validate_LoginDTO_def IsNotEmpty_def
          scenario_defs)
  from login_requires_verified_email
         [of "''alice@example.com''" ?db "''secret1''" cfg0 "world_at 7000"] f v d e
  have 1: "fst (login cfg0 ?db ''alice@example.com'' ''secret1'' (world_at 7000)) =
     Json 400 [(''error'', Str ''Email not verified''),
               (''message'', Str ''Please verify your email before logging in.''),
               (''requiresVerification'', Bool True),
               (''email'', Str ''alice@example.com'')]"
    and 2: "snd (login cfg0 ?db ''alice@example.com'' ''secret1'' (world_at 7000)) = ?db"
    by simp_all
  have 3: "issued_refresh (fst (login cfg0 [alice] ''alice@example.com'' ''secret1'' (world_at 7000)))
       = Some (Jwt ''u1'' 2592007 7 ''k'')"
    by (simp add: login_def validate_LoginDTO_def IsNotEmpty_def findOneBy_def
          argon2_verify_def generateTokens_eq scenario_defs)
  have 4: "isEmailVerified alice" by (simp add: alice_def)
  from 1 2 have "login cfg0 ?db ''alice@example.com'' ''secret1'' (world_at 7000) =
     (Json 400 [(''error'', Str ''Email not verified''),
                (''message'', Str ''Please verify your email before logging in.''),
                (''requiresVerification'', Bool True),
                (''email'', Str ''alice@example.com'')], ?db)"
    by (simp add: prod_eq_iff)
  with 3 4 show ?thesis by simp
qed

section \<open>Google sign-in and the verified flag\<close>

lemma length_toHex: "length (toHex bs) = 2 * length bs"
  unfolding toHex_def by (induction bs) simp_all

lemma length_randomBytes: "length (randomBytes w n) = n"
  by (simp add: randomBytes_def)

lemma save_append_new:
  "\<forall>r \<in> set db. id' r \<noteq> id' u' \<Longrightarrow> id' saved = id' u' \<Longrightarrow> save u' (db @ [saved]) = db @ [u']"
  unfolding save_def by (induction db) simp_all

lemma findOneBy_append_new:
  "findOneBy p db = None \<Longrightarrow> p new \<Longrightarrow> findOneBy p (db @ [new]) = Some new"
  unfolding findOneBy_def by (induction db) (simp_all split: if_splits)

lemma google_existing:
  assumes "t \<noteq> []" and "verifyIdToken w = Payload (Some e)" and "e \<noteq> []"
    and "findOneBy (\<lambda>u. email u = e) db = Some u"
  shows "google cfg db t w =
     (Json 200 [(''message'', Str ''Signed in with Google''),
                (''user'', Obj [(''id'', Str (id' u)), (''email'', Str (email u))]),
                (''accessToken'', Tok (fst (generateTokens cfg (id' u) (Date_now w)))),
                (''refreshToken'', Tok (snd (generateTokens cfg (id' u) (Date_now w))))],
      save (u\<lparr>refreshToken := Some (snd (generateTokens cfg (id' u) (Date_now w)))\<rparr>) db)"
  using assms by (simp add: google_def google_issue_def split_beta)

lemma google_created:
  assumes "t \<noteq> []" and "verifyIdToken w = Payload (Some e)" and "e \<noteq> []"
    and "findOneBy (\<lambda>u. email u = e) db = None"
    and "\<forall>r \<in> set db. id' r \<noteq> uuid w"
  shows "google cfg db t w =
     (Json 200 [(''message'', Str ''Signed in with Google''),
                (''user'', Obj [(''id'', Str (uuid w)), (''email'', Str e)]),
                (''accessToken'', Tok (fst (generateTokens cfg (uuid w) (Date_now w)))),
                (''refreshToken'', Tok (snd (generateTokens cfg (uuid w) (Date_now w))))],
      db @ [\<lparr>id' = uuid w, email = e,
              password = Argon2 (argonSalt w) (toHex (randomBytes w 16)),
              refreshToken = Some (snd (generateTokens cfg (uuid w) (Date_now w))),
              resetPasswordToken = None, resetPasswordExpires = None,
              emailVerificationOtp = None, emailVerificationExpires = None,
              isEmailVerified = False\<rparr>])"
proof -
  let ?user = "create e (argon2_hash (argonSalt w) (toHex (randomBytes w 16)))"
  from assms(4) have "\<forall>r \<in> set db. email r \<noteq> e" by (simp add: findOneBy_None)
  with assms(5) have s: "save_new (uuid w) ?user db = Some (?user\<lparr>id' := uuid w\<rparr>, db @ [?user\<lparr>id' := uuid w\<rparr>])"
    by (auto simp: save_new_def create_def)
  have "save (?user\<lparr>id' := uuid w, refreshToken := Some (snd (generateTokens cfg (uuid w) (Date_now w)))\<rparr>)
          (db @ [?user\<lparr>id' := uuid w\<rparr>])
        = db @ [?user\<lparr>id' := uuid w, refreshToken := Some (snd (generateTokens cfg (uuid w) (Date_now w)))\<rparr>]"
    using assms(5) by (intro save_append_new) simp_all
  with assms(1-4) s show ?thesis
    by (simp add: google_def google_issue_def create_def argon2_hash_def split_beta)
qed


text \<open>
  C10. The Google route never reads \<^verbatim>\<open>isEmailVerified\<close>. For a provider token that
  verifies and carries an email, an account found under that email is handed a new token
  pair, stored on it, whatever its flag says. When no account has the email (and the
  generated identifier is fresh), the account created has the flag false and, as password,
  the hash of the 32 hexadecimal digits of 16 random bytes; it is handed tokens all the
  same, while a password login to that very account, even with the right password, is
  turned away as unverified.
\<close>

theorem google_ignores_verification:
  "(t \<noteq> [] \<and> verifyIdToken w = Payload (Some e) \<and> e \<noteq> []
      \<and> findOneBy (\<lambda>u. email u = e) db = Some u \<longrightarrow>
      google cfg db t w =
       (Json 200 [(''message'', Str ''Signed in with Google''),
                  (''user'', Obj [(''id'', Str (id' u)), (''email'', Str (email u))]),
                  (''accessToken'', Tok (fst (generateTokens cfg (id' u) (Date_now w)))),
                  (''refreshToken'', Tok (snd (generateTokens cfg (id' u) (Date_now w))))],
        save (u\<lparr>refreshToken := Some (snd (generateTokens cfg (id' u) (Date_now w)))\<rparr>) db))
   \<and> (t \<noteq> [] \<and> verifyIdToken w = Payload (Some e) \<and> e \<noteq> []
      \<and> findOneBy (\<lambda>u. email u = e) db = None \<and> (\<forall>r \<in> set db. id' r \<noteq> uuid w) \<longrightarrow>
      google cfg db t w =
       (Json 200 [(''message'', Str ''Signed in with Google''),
                  (''user'', Obj [(''id'', Str (uuid w)), (''email'', Str e)]),
                  (''accessToken'', Tok (fst (generateTokens cfg (uuid w) (Date_now w)))),
                  (''refreshToken'', Tok (snd (generateTokens cfg (uuid w) (Date_now w))))],
        db @ [\<lparr>id' = uuid w, email = e,
                password = Argon2 (argonSalt w) (toHex (randomBytes w 16)),
                refreshToken = Some (snd (generateTokens cfg (uuid w) (Date_now w))),
                resetPasswordToken = None, resetPasswordExpires = None,
                emailVerificationOtp = None, emailVerificationExpires = None,
                isEmailVerified = False\<rparr>])
      \<and> length (randomBytes w 16) = 16 \<and> length (toHex (randomBytes w 16)) = 32
      \<and> (IsEmail cfg e \<longrightarrow>
           login cfg (snd (google cfg db t w)) e (toHex (randomBytes w 16)) w' =
             (Json 400 [(''error'', Str ''Email not verified''),
                        (''message'', Str ''Please verify your email before logging in.''),
                        (''requiresVerification'', Bool True),
                        (''email'', Str e)],
              snd (google cfg db t w))))"
proof (intro conjI impI)
  assume "t \<noteq> [] \<and> verifyIdToken w = Payload (Some e) \<and> e \<noteq> []
      \<and> findOneBy (\<lambda>u. email u = e) db = Some u"
  then have "t \<noteq> []" and "verifyIdToken w = Payload (Some e)" and "e \<noteq> []"
    and "findOneBy (\<lambda>u. email u = e) db = Some u" by simp_all
  then show "google cfg db t w =
       (Json 200 [(''message'', Str ''Signed in with Google''),
                  (''user'', Obj [(''id'', Str (id' u)), (''email'', Str (email u))]),
                  (''accessToken'', Tok (fst (generateTokens cfg (id' u) (Date_now w)))),
                  (''refreshToken'', Tok (snd (generateTokens cfg (id' u) (Date_now w))))],
        save (u\<lparr>refreshToken := Some (snd (generateTokens cfg (id' u) (Date_now w)))\<rparr>) db)"
    by (rule google_existing)
next
  assume a: "t \<noteq> [] \<and> verifyIdToken w = Payload (Some e) \<and> e \<noteq> []
      \<and> findOneBy (\<lambda>u. email u = e) db = None \<and> (\<forall>r \<in> set db. id' r \<noteq> uuid w)"
  let ?new = "\<lparr>id' = uuid w, email = e,
                password = Argon2 (argonSalt w) (toHex (randomBytes w 16)),
                refreshToken = Some (snd (generateTokens cfg (uuid w) (Date_now w))),
                resetPasswordToken = None, resetPasswordExpires = None,
                emailVerificationOtp = None, emailVerificationExpires = None,
                isEmailVerified = False\<rparr>"
  from a have "t \<noteq> []" and "verifyIdToken w = Payload (Some e)" and "e \<noteq> []"
    and "findOneBy (\<lambda>u. email u = e) db = None" and "\<forall>r \<in> set db. id' r \<noteq> uuid w"
    by simp_all
  then show g: "google cfg db t w =
       (Json 200 [(''message'', Str ''Signed in with Google''),
                  (''user'', Obj [(''id'', Str (uuid w)), (''email'', Str e)]),
                  (''accessToken'', Tok (fst (generateTokens cfg (uuid w) (Date_now w)))),
                  (''refreshToken'', Tok (snd (generateTokens cfg (uuid w) (Date_now w))))],
        db @ [?new])"
    by (rule google_created)
  show "length (randomBytes w 16) = 16" by (rule length_randomBytes)
  then show l: "length (toHex (randomBytes w 16)) = 32" by (simp add: length_toHex)
  assume v: "IsEmail cfg e"
  from a have "findOneBy (\<lambda>u. email u = e) db = None" by simp
  then have f: "findOneBy (\<lambda>u. email u = e) (db @ [?new]) = Some ?new"
    by (rule findOneBy_append_new) simp
  from l have ne: "toHex (randomBytes w 16) \<noteq> []" by auto
  from v ne f show "login cfg (snd (google cfg db t w)) e (toHex (randomBytes w 16)) w' =
             (Json 400 [(''error'', Str ''Email not verified''),
                        (''message'', Str ''Please verify your email before logging in.''),
                        (''requiresVerification'', Bool True),
                        (''email'', Str e)],
              snd (google cfg db t w))"
    unfolding g by (simp add: login_def validate_LoginDTO_def IsNotEmpty_def argon2_verify_def)
qed

text \<open>
  Witness for C10: an unverified Alice signs in with Google, and Bob is provisioned by it.
\<close>

theorem google_ignores_verification_witness:
  "google cfg0 [alice\<lparr>isEmailVerified := False\<rparr>] ''idtoken''
       ((world_at 9000)\<lparr>verifyIdToken := Payload (Some ''alice@example.com'')\<rparr>) =
     (Json 200 [(''message'', Str ''Signed in with Google''),
                (''user'', Obj [(''id'', Str ''u1''), (''email'', Str ''alice@example.com'')]),
                (''accessToken'', Tok (Jwt ''u1'' 909 9 ''k'')),
                (''refreshToken'', Tok (Jwt ''u1'' 2592009 9 ''k''))],
      [alice\<lparr>isEmailVerified := False, refreshToken := Some (Jwt ''u1'' 2592009 9 ''k'')\<rparr>])
   \<and> google cfg0 [] ''idtoken'' (world_at 9000) =
     (Json 200 [(''message'', Str ''Signed in with Google''),
                (''user'', Obj [(''id'', Str ''u1''), (''email'', Str ''bob@example.com'')]),
                (''accessToken'', Tok (Jwt ''u1'' 909 9 ''k'')),
                (''refreshToken'', Tok (Jwt ''u1'' 2592009 9 ''k''))],
      [\<lparr>id' = ''u1'', email = ''bob@example.com'',
        password = Argon2 ''salt'' ''000102030405060708090a0b0c0d0e0f'',
        refreshToken = Some (Jwt ''u1'' 2592009 9 ''k''),
        resetPasswordToken = None, resetPasswordExpires = None,
        emailVerificationOtp = None, emailVerificationExpires = None,
        isEmailVerified = False\<rparr>])"
proof -
  let ?w = "(world_at 9000)\<lparr>verifyIdToken := Payload (Some ''alice@example.com'')\<rparr>"
  let ?a = "alice\<lparr>isEmailVerified := False\<rparr>"
  have f: "findOneBy (\<lambda>u. email u = ''alice@example.com'') [?a] = Some ?a"
    by (simp add: findOneBy_def scenario_defs)
  have v: "verifyIdToken ?w = Payload (Some ''alice@example.com'')" by simp
  from google_ignores_verification [of "''idtoken''" ?w "''alice@example.com''" "[?a]" ?a cfg0] f v
  have 1: "google cfg0 [?a] ''idtoken'' ?w =
       (Json 200 [(''message'', Str ''Signed in with Google''),
                  (''user'', Obj [(''id'', Str (id' ?a)), (''email'', Str (email ?a))]),
                  (''accessToken'', Tok (fst (generateTokens cfg0 (id' ?a) (Date_now ?w)))),
                  (''refreshToken'', Tok (snd (generateTokens cfg0 (id' ?a) (Date_now ?w))))],
        save (?a\<lparr>refreshToken := Some (snd (generateTokens cfg0 (id' ?a) (Date_now ?w)))\<rparr>) [?a])"
    by simp
  have v2: "verifyIdToken (world_at 9000) = Payload (Some ''bob@example.com'')"
    by (simp add: world_at_def)
  from google_ignores_verification
         [of "''idtoken''" "world_at 9000" "''bob@example.com''" "[]" _ cfg0] v2
  have 2: "google cfg0 [] ''idtoken'' (world_at 9000) =
       (Json 200 [(''message'', Str ''Signed in with Google''),
                  (''user'', Obj [(''id'', Str (uuid (world_at 9000))), (''email'', Str ''bob@example.com'')]),
                  (''accessToken'', Tok (fst (generateTokens cfg0 (uuid (world_at 9000)) (Date_now (world_at 9000))))),
                  (''refreshToken'', Tok (snd (generateTokens cfg0 (uuid (world_at 9000)) (Date_now (world_at 9000)))))],
        [] @ [\<lparr>id' = uuid (world_at 9000), email = ''bob@example.com'',
                password = Argon2 (argonSalt (world_at 9000)) (toHex (randomBytes (world_at 9000) 16)),
                refreshToken = Some (snd (generateTokens cfg0 (uuid (world_at 9000)) (Date_now (world_at 9000)))),
                resetPasswordToken = None, resetPasswordExpires = None,
                emailVerificationOtp = None, emailVerificationExpires = None,
                isEmailVerified = False\<rparr>])"
    by (simp add: findOneBy_def)
  have h: "toHex (randomBytes (world_at 9000) 16) = ''000102030405060708090a0b0c0d0e0f''"
    by (simp add: toHex_def randomBytes_def hexChar_def upt_rec world_at_def)
  show ?thesis
    unfolding 1 2 h
    by (simp add: generateTokens_eq save_def scenario_defs)
qed

section \<open>The columns each operation writes\<close>

lemma changed_same: "changed a a = []"
  by (simp add: changed_def)

lemma save_rel:
  assumes d: "distinct (map id' db)" and u: "u \<in> set db" and i: "id' u' = id' u"
    and r: "R u u'" and refl: "\<And>x. R x x"
  shows "list_all2 R db (save u' db)"
proof -
  have "R x (if id' x = id' u' then u' else x)" if "x \<in> set db" for x
  proof (cases "id' x = id' u'")
    case True
    with i have "id' x = id' u" by simp
    with d that u have "x = u" by (meson distinct_map inj_onD)
    with r True show ?thesis by simp
  next
    case False
    with refl show ?thesis by simp
  qed
  then show ?thesis
    unfolding save_def by (simp add: list_all2_conv_all_nth)
qed

lemma rel_same: "(\<And>x. R x x) \<Longrightarrow> list_all2 R db db"
  by (simp add: list_all2_conv_all_nth)

lemma login_writes:
  assumes "distinct (map id' db)"
  shows "list_all2 (\<lambda>a b. set (changed a b) \<subseteq> {''refreshToken''}) db (snd (login cfg db e p w))"
proof (cases "snd (login cfg db e p w) = db")
  case True
  then show ?thesis by (simp add: rel_same changed_same)
next
  case False
  then obtain u where u: "findOneBy (\<lambda>u. email u = e) db = Some u"
    and s: "snd (login cfg db e p w) =
              save (u\<lparr>refreshToken := Some (snd (generateTokens cfg (id' u) (Date_now w)))\<rparr>) db"
    by (auto simp: login_def split_beta split: if_splits option.splits)
  from findOneBy_Some [OF u] have "u \<in> set db" by simp
  with assms show ?thesis unfolding s
    by (rule save_rel) (auto simp: changed_def)
qed

lemma refresh_writes:
  assumes "distinct (map id' db)"
  shows "list_all2 (\<lambda>a b. set (changed a b) \<subseteq> {''refreshToken''}) db (snd (refresh cfg db t w))"
proof (cases "refresh_account cfg db t w")
  case None
  from refresh_rejected [OF this] show ?thesis by (simp add: rel_same changed_same)
next
  case (Some u)
  then have "u \<in> set db"
    by (auto simp: refresh_account_def split: option.splits if_splits dest: findOneBy_Some)
  with assms show ?thesis unfolding refresh_accepted [OF Some] snd_conv
    by (rule save_rel) (auto simp: changed_def)
qed

lemma logout_writes:
  assumes "distinct (map id' db)"
  shows "list_all2 (\<lambda>a b. set (changed a b) \<subseteq> {''refreshToken''}) db (snd (logout cfg db t w))"
  by (simp add: logout_unchanged [OF assms] rel_same changed_same)

lemma verify_otp_accepted:
  assumes "status (fst (verify_otp cfg db e c w)) = 200"
  obtains u x where "validate_VerifyOtpDTO cfg e c = []"
    and "findOneBy (\<lambda>u. email u = e) db = Some u"
    and "emailVerificationOtp u = Some c" and "emailVerificationExpires u = Some x"
    and "Date_now w \<le> x"
    and "verify_otp cfg db e c w =
           (Json 200 [(''message'', Str ''Email verified successfully''), (''verified'', Bool True)],
            save (u\<lparr>isEmailVerified := True\<rparr>) db)"
  using assms
  by (auto simp: verify_otp_def skip_undefined_simps Let_def split: if_splits option.splits)

lemma verify_otp_rejected:
  "status (fst (verify_otp cfg db e c w)) \<noteq> 200 \<Longrightarrow> snd (verify_otp cfg db e c w) = db"
  by (auto simp: verify_otp_def split: if_splits option.splits)

lemma verify_otp_writes:
  assumes "distinct (map id' db)"
  shows "list_all2 (\<lambda>a b. set (changed a b) \<subseteq>
           {''emailVerificationOtp'', ''emailVerificationExpires'', ''isEmailVerified''})
         db (snd (verify_otp cfg db e c w))"
proof (cases "status (fst (verify_otp cfg db e c w)) = 200")
  case False
  from verify_otp_rejected [OF this] show ?thesis by (simp add: rel_same changed_same)
next
  case True
  then show ?thesis
  proof (rule verify_otp_accepted)
    fix u x
    assume f: "findOneBy (\<lambda>u. email u = e) db = Some u"
      and r: "verify_otp cfg db e c w =
           (Json 200 [(''message'', Str ''Email verified successfully''), (''verified'', Bool True)],
            save (u\<lparr>isEmailVerified := True\<rparr>) db)"
    from findOneBy_Some [OF f] have "u \<in> set db" by simp
    with assms show ?thesis unfolding r snd_conv
      by (rule save_rel) (auto simp: changed_def)
  qed
qed

lemma login_accepted:
  assumes "status (fst (login cfg db e p w)) = 200"
  obtains u where "findOneBy (\<lambda>u. email u = e) db = Some u"
    and "snd (login cfg db e p w) =
           save (u\<lparr>refreshToken := Some (snd (generateTokens cfg (id' u) (Date_now w)))\<rparr>) db"
  using assms
  by (auto simp: login_def split_beta split: if_splits option.splits)

lemma changed_refreshToken:
  "changed u (u\<lparr>refreshToken := Some n\<rparr>) =
     (if refreshToken u = Some n then [] else [''refreshToken''])"
  by (simp add: changed_def)

lemma register_cases:
  "(status (fst (register cfg db e p w)) = 201 \<longrightarrow>
      snd (register cfg db e p w) =
        db @ [\<lparr>id' = uuid w, email = e, password = Argon2 (argonSalt w) p,
                refreshToken = None, resetPasswordToken = None, resetPasswordExpires = None,
                emailVerificationOtp = Some (generateOtp (Math_random w)),
                emailVerificationExpires = Some (Date_now w + 600000),
                isEmailVerified = False\<rparr>])
   \<and> (status (fst (register cfg db e p w)) \<noteq> 201 \<longrightarrow> snd (register cfg db e p w) = db)"
  by (auto simp: register_def save_new_def create_def argon2_hash_def Let_def
           split: option.splits)


subsection \<open>Identifiers stay distinct\<close>

lemma me_unchanged: "snd (me cfg db h w) = db"
  by (simp add: me_def split: authenticated.splits)

lemma ids_save: "map id' (save u' db) = map id' db"
  unfolding save_def by (induction db) simp_all

lemma ids_save_new:
  "save_new i user db = Some (saved, db1) \<Longrightarrow> i \<notin> set (map id' db) \<and> map id' db1 = map id' db @ [i]"
  by (auto simp: save_new_def split: if_splits)

lemma login_ids: "map id' (snd (login cfg db e p w)) = map id' db"
  by (simp add: login_def ids_save split_beta split: option.splits)

lemma verify_otp_ids: "map id' (snd (verify_otp cfg db e c w)) = map id' db"
  by (simp add: verify_otp_def ids_save Let_def split: option.splits)

lemma resend_otp_ids: "map id' (snd (resend_otp cfg db e w)) = map id' db"
  by (simp add: resend_otp_def ids_save Let_def split: option.splits)

lemma refresh_ids: "map id' (snd (refresh cfg db t w)) = map id' db"
  by (simp add: refresh_def ids_save split_beta invalid_refresh_def split: option.splits)

lemma logout_ids: "map id' (snd (logout cfg db t w)) = map id' db"
  by (simp add: logout_def ids_save Let_def split: option.splits)

lemma forgot_password_ids: "map id' (snd (forgot_password cfg db e w)) = map id' db"
  by (simp add: forgot_password_def ids_save Let_def split: option.splits)

lemma reset_password_ids: "map id' (snd (reset_password cfg db t p w)) = map id' db"
  by (simp add: reset_password_def ids_save Let_def split: option.splits)

lemma register_ids:
  "map id' (snd (register cfg db e p w)) = map id' db
   \<or> uuid w \<notin> set (map id' db) \<and> map id' (snd (register cfg db e p w)) = map id' db @ [uuid w]"
  by (auto simp: register_def Let_def split: option.splits dest: ids_save_new)

lemma google_ids:
  "map id' (snd (google cfg db t w)) = map id' db
   \<or> uuid w \<notin> set (map id' db) \<and> map id' (snd (google cfg db t w)) = map id' db @ [uuid w]"
proof -
  obtain res db' where g: "google cfg db t w = (res, db')" by (cases "google cfg db t w")
  then have "map id' db' = map id' db
     \<or> uuid w \<notin> set (map id' db) \<and> map id' db' = map id' db @ [uuid w]"
  proof (cases rule: google_cases)
    case unchanged
    then show ?thesis by simp
  next
    case (existing u)
    then have "db' = snd (google_issue cfg db u w)" by simp
    then show ?thesis by (simp add: google_issue_def split_beta ids_save)
  next
    case (created e saved db1)
    then have "db' = snd (google_issue cfg db1 saved w)" by simp
    then have "map id' db' = map id' db1" by (simp add: google_issue_def split_beta ids_save)
    with ids_save_new [OF created(5)] show ?thesis by simp
  qed
  with g show ?thesis by simp
qed

lemma handle_distinct:
  assumes "distinct (map id' db)"
  shows "distinct (map id' (snd (handle cfg db r w)))"
proof (cases r)
  case (Register e p)
  with register_ids [of cfg db e p w] assms show ?thesis by auto
next
  case (Google t)
  with google_ids [of cfg db t w] assms show ?thesis by auto
qed (simp_all add: assms login_ids verify_otp_ids resend_otp_ids refresh_ids logout_ids
       forgot_password_ids reset_password_ids me_unchanged)

lemma run_distinct:
  assumes "distinct (map id' db)" and "run cfg (db, latest) rs = (db', latest')"
  shows "distinct (map id' db')"
  using assms
proof (induction rs arbitrary: db latest)
  case Nil
  then show ?case by simp
next
  case (Cons a rs)
  obtain r w where a: "a = (r, w)" by (cases a)
  obtain res db1 where h: "handle cfg db r w = (res, db1)" by (cases "handle cfg db r w")
  from Cons.prems(1) have "distinct (map id' (snd (handle cfg db r w)))" by (rule handle_distinct)
  with h have "distinct (map id' db1)" by simp
  moreover from Cons.prems(2) a h have "run cfg (db1, note_issued res latest) rs = (db', latest')"
    by simp
  ultimately show ?case by (rule Cons.IH)
qed

section \<open>One-time codes: generation\<close>

subsection \<open>Rounding to the nearest double\<close>

lemma two_powi_less_iff: "(2::rat) powi a < 2 powi b \<longleftrightarrow> a < b"
proof
  assume "(2::rat) powi a < 2 powi b"
  show "a < b"
  proof (rule ccontr)
    assume "\<not> a < b"
    then have "b \<le> a" by simp
    then have "(2::rat) powi b \<le> 2 powi a" by (intro power_int_increasing) simp_all
    with \<open>(2::rat) powi a < 2 powi b\<close> show False by simp
  qed
next
  assume "a < b"
  then show "(2::rat) powi a < 2 powi b" by (intro power_int_strict_increasing) simp_all
qed

lemma ilog2_ge1:
  assumes "1 \<le> x"
  shows "2 powi (ilog2 x) \<le> x" and "x < 2 powi (ilog2 x + 1)"
proof -
  let ?n = "\<lfloor>x\<rfloor>"
  from assms have n: "0 < ?n" by simp
  then have b1: "1 \<le> bitlen ?n" by (simp add: bitlen_alt_def)
  from bitlen_bounds [OF n]
  have lo: "2 ^ nat (bitlen ?n - 1) \<le> ?n" and hi: "?n < 2 ^ nat (bitlen ?n)" by simp_all
  have e: "ilog2 x = bitlen ?n - 1" using assms by (simp add: ilog2_def)
  have "(2::rat) powi (bitlen ?n - 1) = 2 ^ nat (bitlen ?n - 1)"
    using b1 by (simp add: power_int_def)
  also have "\<dots> = of_int (2 ^ nat (bitlen ?n - 1))" by simp
  also have "\<dots> \<le> of_int ?n" using lo by (simp only: of_int_le_iff)
  also have "\<dots> \<le> x" by simp
  finally show "2 powi (ilog2 x) \<le> x" by (simp add: e)
  from hi have "?n + 1 \<le> 2 ^ nat (bitlen ?n)" by simp
  then have "(of_int (?n + 1) :: rat) \<le> of_int (2 ^ nat (bitlen ?n))"
    by (simp only: of_int_le_iff)
  moreover have "x < of_int (?n + 1)" by linarith
  ultimately have "x < of_int (2 ^ nat (bitlen ?n))" by simp
  also have "\<dots> = 2 powi (bitlen ?n)" using b1 by (simp add: power_int_def)
  finally show "x < 2 powi (ilog2 x + 1)" by (simp add: e)
qed

lemma ilog2_lt1:
  assumes "0 < x" and "x < 1"
  shows "2 powi (ilog2 x) \<le> x" and "x < 2 powi (ilog2 x + 1)"
proof -
  let ?m = "\<lceil>1 / x\<rceil> - 1"
  from assms have "1 < 1 / x" by simp
  then have "1 < \<lceil>1 / x\<rceil>" by (simp add: less_ceiling_iff)
  then have m: "0 < ?m" by simp
  then have b1: "1 \<le> bitlen ?m" by (simp add: bitlen_alt_def)
  from bitlen_bounds [OF m]
  have lo: "2 ^ nat (bitlen ?m - 1) \<le> ?m" and hi: "?m < 2 ^ nat (bitlen ?m)" by simp_all
  have e: "ilog2 x = - bitlen ?m" using assms by (simp add: ilog2_def)
  have up: "1 / x \<le> of_int (?m + 1)" by (simp add: le_of_int_ceiling)
  have dn: "of_int ?m < 1 / x" by linarith
  from hi have "?m + 1 \<le> 2 ^ nat (bitlen ?m)" by simp
  then have "(of_int (?m + 1) :: rat) \<le> of_int (2 ^ nat (bitlen ?m))"
    by (simp only: of_int_le_iff)
  with up have "1 / x \<le> of_int (2 ^ nat (bitlen ?m))" by (rule order_trans)
  then have "1 / x \<le> 2 ^ nat (bitlen ?m)" by simp
  with assms(1) have "1 / 2 ^ nat (bitlen ?m) \<le> x"
    by (simp add: field_simps)
  moreover have "(2::rat) powi (- bitlen ?m) = 1 / 2 ^ nat (bitlen ?m)"
    using b1 by (simp add: power_int_def field_simps)
  ultimately show "2 powi (ilog2 x) \<le> x" by (simp add: e)
  from lo have "(of_int (2 ^ nat (bitlen ?m - 1)) :: rat) \<le> of_int ?m"
    by (simp only: of_int_le_iff)
  with dn have "2 ^ nat (bitlen ?m - 1) < 1 / x" by simp
  with assms(1) have "x < 1 / 2 ^ nat (bitlen ?m - 1)"
    by (simp add: field_simps)
  moreover have "(2::rat) powi (- bitlen ?m + 1) = 1 / 2 ^ nat (bitlen ?m - 1)"
  proof -
    have "- bitlen ?m + 1 = - (bitlen ?m - 1)" by simp
    then have "(2::rat) powi (- bitlen ?m + 1) = 2 powi (- (bitlen ?m - 1))" by simp
    also have "\<dots> = 1 / 2 powi (bitlen ?m - 1)" by (rule power_int_minus_divide)
    also have "\<dots> = 1 / 2 ^ nat (bitlen ?m - 1)" using b1 by (simp add: power_int_def)
    finally show ?thesis .
  qed
  ultimately show "x < 2 powi (ilog2 x + 1)" by (simp add: e)
qed

lemma ilog2_bounds:
  assumes "0 < x"
  shows "2 powi (ilog2 x) \<le> x" and "x < 2 powi (ilog2 x + 1)"
  using assms ilog2_ge1 [of x] ilog2_lt1 [of x] by (cases "1 \<le> x"; simp)+

lemma ilog2_unique:
  assumes "0 < x" and "2 powi e \<le> x" and "x < 2 powi (e + 1)"
  shows "ilog2 x = e"
proof -
  from ilog2_bounds [OF assms(1)] assms(2,3)
  have "(2::rat) powi (ilog2 x) < 2 powi (e + 1)" and "(2::rat) powi e < 2 powi (ilog2 x + 1)"
    by linarith+
  then show ?thesis by (simp add: two_powi_less_iff)
qed

lemma ilog2_less:
  assumes "0 < x" and "x < 2 powi n"
  shows "ilog2 x < n"
proof -
  from ilog2_bounds(1) [OF assms(1)] assms(2) have "(2::rat) powi (ilog2 x) < 2 powi n"
    by linarith
  then show ?thesis by (simp add: two_powi_less_iff)
qed

lemma round_even_cases: "round_even x = \<lfloor>x\<rfloor> \<or> round_even x = \<lfloor>x\<rfloor> + 1 \<and> of_int \<lfloor>x\<rfloor> < x"
  by (auto simp: round_even_def Let_def)

lemma round_even_ge:
  assumes "of_int n \<le> x"
  shows "n \<le> round_even x"
proof -
  from assms have "n \<le> \<lfloor>x\<rfloor>" by (simp add: le_floor_iff)
  with round_even_cases [of x] show ?thesis by auto
qed

lemma round_even_le:
  assumes "x \<le> of_int n"
  shows "round_even x \<le> n"
proof -
  from assms have f: "\<lfloor>x\<rfloor> \<le> n" by (simp add: floor_le_iff)
  show ?thesis
  proof (cases "round_even x = \<lfloor>x\<rfloor>")
    case True
    with f show ?thesis by simp
  next
    case False
    with round_even_cases [of x] have r: "round_even x = \<lfloor>x\<rfloor> + 1" and s: "of_int \<lfloor>x\<rfloor> < x"
      by auto
    from s assms have "(of_int \<lfloor>x\<rfloor> :: rat) < of_int n" by linarith
    then have "\<lfloor>x\<rfloor> < n" by (simp only: of_int_less_iff)
    with r show ?thesis by simp
  qed
qed

lemma round_even_near:
  assumes "of_int n \<le> x" and "x < of_int n + 1 / 2"
  shows "round_even x = n"
proof -
  from assms have "\<lfloor>x\<rfloor> = n" by (intro floor_unique) linarith+
  with assms show ?thesis by (simp add: round_even_def Let_def)
qed


lemma ulp_pos: "0 < ulp x"
  by (simp add: ulp_def)

lemma ulp_grid:
  assumes "0 < x" and "x < 2 powi (k + 53)" and "- 1074 \<le> k"
  obtains j :: nat where "2 powi k = of_int (2 ^ j) * ulp x"
proof -
  let ?e = "max (ilog2 x) (- 1022)"
  from ilog2_less [OF assms(1,2)] assms(3) have le: "?e - 52 \<le> k" by simp
  have "(2::rat) powi k = 2 powi ((k - (?e - 52)) + (?e - 52))" by simp
  also have "\<dots> = 2 powi (k - (?e - 52)) * 2 powi (?e - 52)"
    by (rule power_int_add) simp
  also have "(2::rat) powi (k - (?e - 52)) = 2 ^ nat (k - (?e - 52))"
    using le by (simp add: power_int_def)
  finally have "2 powi k = of_int (2 ^ nat (k - (?e - 52))) * ulp x"
    using assms(1) by (simp add: ulp_def)
  then show ?thesis by (rule that)
qed

lemma fl_le_grid:
  assumes "0 < x" and "x \<le> of_int m * 2 powi k" and "x < 2 powi (k + 53)" and "- 1074 \<le> k"
  shows "fl x \<le> of_int m * 2 powi k"
proof -
  from assms(1,3,4) obtain j :: nat where j: "2 powi k = of_int (2 ^ j) * ulp x"
    by (rule ulp_grid)
  from assms(2) have "x \<le> of_int (m * 2 ^ j) * ulp x" by (simp add: j mult.assoc)
  then have "x / ulp x \<le> of_int (m * 2 ^ j)"
    using ulp_pos [of x] by (simp add: field_simps)
  then have "round_even (x / ulp x) \<le> m * 2 ^ j" by (rule round_even_le)
  then have "(of_int (round_even (x / ulp x)) :: rat) \<le> of_int (m * 2 ^ j)"
    by (simp only: of_int_le_iff)
  then have "of_int (round_even (x / ulp x)) * ulp x \<le> of_int (m * 2 ^ j) * ulp x"
    using ulp_pos [of x] by (intro mult_right_mono) simp_all
  with assms(1) show ?thesis by (simp add: fl_def j mult.assoc)
qed

lemma fl_ge_grid:
  assumes "0 < x" and "of_int m * 2 powi k \<le> x" and "x < 2 powi (k + 53)" and "- 1074 \<le> k"
  shows "of_int m * 2 powi k \<le> fl x"
proof -
  from assms(1,3,4) obtain j :: nat where j: "2 powi k = of_int (2 ^ j) * ulp x"
    by (rule ulp_grid)
  from assms(2) have "of_int (m * 2 ^ j) * ulp x \<le> x" by (simp add: j mult.assoc)
  then have "of_int (m * 2 ^ j) \<le> x / ulp x"
    using ulp_pos [of x] by (simp add: field_simps)
  then have "m * 2 ^ j \<le> round_even (x / ulp x)" by (rule round_even_ge)
  then have "(of_int (m * 2 ^ j) :: rat) \<le> of_int (round_even (x / ulp x))"
    by (simp only: of_int_le_iff)
  then have "of_int (m * 2 ^ j) * ulp x \<le> of_int (round_even (x / ulp x)) * ulp x"
    using ulp_pos [of x] by (intro mult_right_mono) simp_all
  with assms(1) show ?thesis by (simp add: fl_def j mult.assoc)
qed

lemma ulp_binade:
  assumes "2 powi (k + 52) \<le> x" and "x < 2 powi (k + 53)" and "- 1074 \<le> k"
  shows "ulp x = 2 powi k"
proof -
  have "(0::rat) < 2 powi (k + 52)" by simp
  with assms(1) have x: "0 < x" by linarith
  from assms(2) have "x < 2 powi (k + 52 + 1)" by (simp add: add.assoc)
  with x assms(1) have "ilog2 x = k + 52" by (intro ilog2_unique)
  with x assms(3) show ?thesis by (simp add: ulp_def)
qed

lemma fl_near:
  assumes "of_int n * 2 powi k \<le> x" and "x < (of_int n + 1 / 2) * 2 powi k"
    and "2 powi (k + 52) \<le> x" and "x < 2 powi (k + 53)" and "- 1074 \<le> k"
  shows "fl x = of_int n * 2 powi k"
proof -
  have u: "ulp x = 2 powi k" using assms(3-5) by (rule ulp_binade)
  have "(0::rat) < 2 powi (k + 52)" by simp
  with assms(3) have x: "x \<noteq> 0" by linarith
  have q: "(0::rat) < 2 powi k" by simp
  from assms(1) q have "of_int n \<le> x / 2 powi k" by (simp add: field_simps)
  moreover from assms(2) q have "x / 2 powi k < of_int n + 1 / 2" by (simp add: field_simps)
  ultimately have "round_even (x / 2 powi k) = n" by (rule round_even_near)
  with x u show ?thesis by (simp add: fl_def)
qed

text \<open>The largest double below 1 is \<open>1 - 1 / 2 ^ 53\<close>.\<close>

lemma double_below_one:
  assumes "fl r = r" and "0 \<le> r" and "r < 1"
  shows "r \<le> 1 - 1 / 2 ^ 53"
proof (cases "r < 1 / 2")
  case True
  then show ?thesis by simp
next
  case False
  then have h: "2 powi (- 53 + 52) \<le> r" by (simp add: power_int_minus)
  from assms(3) have "r < 2 powi (- 53 + 53)" by simp
  with h have u: "ulp r = 2 powi (- 53)" by (intro ulp_binade) simp_all
  let ?N = "round_even (r / ulp r)"
  from False have "r \<noteq> 0" by auto
  with assms(1) have r: "r = of_int ?N * 2 powi (- 53)" by (simp add: fl_def u)
  with assms(3) have "of_int ?N < (2 ^ 53 :: rat)" by (simp add: power_int_minus field_simps)
  then have "(of_int ?N :: rat) < of_int (2 ^ 53)" by simp
  then have "?N < 2 ^ 53" by (simp only: of_int_less_iff)
  then have "?N \<le> 2 ^ 53 - 1" by simp
  then have "(of_int ?N :: rat) \<le> of_int (2 ^ 53 - 1)" by (simp only: of_int_le_iff)
  then have "of_int ?N * 2 powi (- 53) \<le> (of_int (2 ^ 53 - 1) :: rat) * 2 powi (- 53)"
    by (intro mult_right_mono) simp_all
  with r have "r \<le> (of_int (2 ^ 53 - 1) :: rat) * 2 powi (- 53)" by simp
  also have "\<dots> = 1 - 1 / 2 ^ 53" by (simp add: power_int_minus field_simps)
  finally show ?thesis .
qed


text \<open>
  The product \<^verbatim>\<open>Math.random() * 900000\<close> is at most \<open>900000 - 900000 / 2 ^ 53\<close>
  before rounding. The doubles next to it are \<open>900000 - 1 / 2 ^ 33\<close> and
  \<open>900000\<close>, and the lower one is the nearer: the product never rounds up to
  \<open>900000\<close>.
\<close>

lemma product_rounds_below:
  assumes "0 \<le> p" and "p \<le> 900000 - 900000 / 2 ^ 53"
  shows "0 \<le> fl p" and "fl p \<le> 900000 - 1 / 2 ^ 33"
proof -
  have g0: "(0::rat) = of_int 0 * 2 powi (- 33)" by simp
  have gb: "(900000 - 1 / 2 ^ 33 :: rat) = of_int (900000 * 2 ^ 33 - 1) * 2 powi (- 33)"
    by (simp add: power_int_minus field_simps)
  have lt: "p < 2 powi (- 33 + 53)" using assms(2) by simp
  show "0 \<le> fl p"
  proof (cases "p = 0")
    case True
    then show ?thesis by (simp add: fl_def)
  next
    case False
    with assms(1) have "0 < p" by simp
    then have "of_int 0 * 2 powi (- 33) \<le> fl p"
      using lt by (intro fl_ge_grid) simp_all
    then show ?thesis by simp
  qed
  show "fl p \<le> 900000 - 1 / 2 ^ 33"
  proof (cases "p \<le> 900000 - 1 / 2 ^ 33")
    case True
    show ?thesis
    proof (cases "p = 0")
      case True
      then show ?thesis by (simp add: fl_def)
    next
      case False
      with assms(1) have "0 < p" by simp
      moreover from True have "p \<le> of_int (900000 * 2 ^ 33 - 1) * 2 powi (- 33)"
        by (simp only: gb)
      ultimately have "fl p \<le> of_int (900000 * 2 ^ 33 - 1) * 2 powi (- 33)"
        using lt by (intro fl_le_grid) simp_all
      then show ?thesis by (simp only: gb)
    qed
  next
    case False
    then have lo: "of_int (900000 * 2 ^ 33 - 1) * 2 powi (- 33) \<le> p"
      by (simp only: gb [symmetric])
    have "(900000 - 900000 / 2 ^ 53 :: rat) < (of_int (900000 * 2 ^ 33 - 1) + 1 / 2) * 2 powi (- 33)"
      by (simp add: power_int_minus field_simps)
    with assms(2) have hi: "p < (of_int (900000 * 2 ^ 33 - 1) + 1 / 2) * 2 powi (- 33)"
      by linarith
    have "(2::rat) powi (- 33 + 52) \<le> 900000 - 1 / 2 ^ 33" by simp
    with False have b: "2 powi (- 33 + 52) \<le> p" by linarith
    have "fl p = of_int (900000 * 2 ^ 33 - 1) * 2 powi (- 33)"
      using lo hi b lt
      by (rule fl_near [where k = "- 33"]) simp_all
    then show ?thesis by (simp only: gb)
  qed
qed

lemma sum_rounds_within:
  assumes "100000 \<le> s" and "s \<le> 1000000 - 1 / 2 ^ 33"
  shows "100000 \<le> fl s" and "fl s \<le> 1000000 - 1 / 2 ^ 33"
proof -
  have ga: "(100000 :: rat) = of_int (100000 * 2 ^ 33) * 2 powi (- 33)"
    by (simp add: power_int_minus field_simps)
  have gb: "(1000000 - 1 / 2 ^ 33 :: rat) = of_int (1000000 * 2 ^ 33 - 1) * 2 powi (- 33)"
    by (simp add: power_int_minus field_simps)
  from assms(1) have pos: "0 < s" by simp
  have lt: "s < 2 powi (- 33 + 53)" using assms(2) by simp
  from assms(1) have "of_int (100000 * 2 ^ 33) * 2 powi (- 33) \<le> s" by (simp only: ga [symmetric])
  with pos have "of_int (100000 * 2 ^ 33) * 2 powi (- 33) \<le> fl s"
    using lt by (intro fl_ge_grid) simp_all
  then show "100000 \<le> fl s" by (simp only: ga [symmetric])
  from assms(2) have "s \<le> of_int (1000000 * 2 ^ 33 - 1) * 2 powi (- 33)" by (simp only: gb)
  with pos have "fl s \<le> of_int (1000000 * 2 ^ 33 - 1) * 2 powi (- 33)"
    using lt by (intro fl_le_grid) simp_all
  then show "fl s \<le> 1000000 - 1 / 2 ^ 33" by (simp only: gb)
qed

lemma otp_number_range:
  assumes "fl r = r" and "0 \<le> r" and "r < 1"
  shows "100000 \<le> \<lfloor>fl (100000 + fl (r * 900000))\<rfloor>"
    and "\<lfloor>fl (100000 + fl (r * 900000))\<rfloor> \<le> 999999"
proof -
  from assms have "r \<le> 1 - 1 / 2 ^ 53" by (rule double_below_one)
  then have "r * 900000 \<le> (1 - 1 / 2 ^ 53) * 900000" by (intro mult_right_mono) simp_all
  then have u: "r * 900000 \<le> 900000 - 900000 / 2 ^ 53" by (simp add: algebra_simps)
  from assms(2) have l: "0 \<le> r * 900000" by simp
  from product_rounds_below [OF l u]
  have "100000 \<le> 100000 + fl (r * 900000)"
    and "100000 + fl (r * 900000) \<le> 1000000 - 1 / 2 ^ 33" by simp_all
  from sum_rounds_within [OF this]
  have a: "100000 \<le> fl (100000 + fl (r * 900000))"
    and b: "fl (100000 + fl (r * 900000)) \<le> 1000000 - 1 / 2 ^ 33" .
  from a show "100000 \<le> \<lfloor>fl (100000 + fl (r * 900000))\<rfloor>" by (simp add: le_floor_iff)
  from b have "fl (100000 + fl (r * 900000)) < 999999 + 1" by simp
  then show "\<lfloor>fl (100000 + fl (r * 900000))\<rfloor> \<le> 999999" by (simp add: floor_le_iff)
qed

subsection \<open>Decimal digits\<close>

lemma digitChar_digit: "d < 10 \<Longrightarrow> digitChar d \<in> set ''0123456789''"
  unfolding digitChar_def by (intro nth_mem) simp

lemma set_digits: "set (digits n) \<subseteq> set ''0123456789''"
proof (induction n rule: digits.induct)
  case (1 n)
  show ?case
  proof (cases "n < 10")
    case True
    then have "digits n = [digitChar n]" by simp
    with digitChar_digit [OF True] show ?thesis by simp
  next
    case False
    then have d: "digits n = digits (n div 10) @ [digitChar (n mod 10)]" by simp
    have "digitChar (n mod 10) \<in> set ''0123456789''" by (rule digitChar_digit) simp
    with 1 [OF False] show ?thesis unfolding d by simp
  qed
qed

lemma length_digits:
  "10 ^ k \<le> n \<Longrightarrow> n < 10 ^ Suc k \<Longrightarrow> length (digits n) = Suc k"
proof (induction k arbitrary: n)
  case 0
  then show ?case by simp
next
  case (Suc k)
  from Suc.prems have ge: "10 \<le> n" 
    by (metis One_nat_def le_trans one_le_numeral power_increasing power_one_right Suc_leI zero_less_Suc)
  from Suc.prems have "10 ^ k \<le> n div 10" and "n div 10 < 10 ^ Suc k"
    by (simp_all add: less_mult_imp_div_less mult.commute Suc_le_eq div_greater_zero_iff
          less_eq_div_iff_mult_less_eq)
  then have "length (digits (n div 10)) = Suc k" by (rule Suc.IH)
  moreover from ge have "digits n = digits (n div 10) @ [digitChar (n mod 10)]" by simp
  ultimately show ?case by simp
qed

lemma generateOtp_six_digits:
  assumes "unit_double r"
  obtains n :: nat where "100000 \<le> n" and "n \<le> 999999" and "generateOtp r = digits n"
proof -
  from assms have r: "fl r = r" "0 \<le> r" "r < 1" by (simp_all add: unit_double_def)
  let ?i = "\<lfloor>fl (100000 + fl (r * 900000))\<rfloor>"
  from otp_number_range [OF r] have i: "100000 \<le> ?i" "?i \<le> 999999" .
  then have "generateOtp r = digits (nat ?i)" by (simp add: generateOtp_def toString_def)
  moreover from i have "100000 \<le> nat ?i" and "nat ?i \<le> 999999" by linarith+
  ultimately show ?thesis by (intro that [of "nat ?i"])
qed

lemma resend_otp_overwrites:
  assumes "validate_ResendOtpDTO cfg e = []" and "findOneBy (\<lambda>u. email u = e) db = Some u"
    and "\<not> isEmailVerified u"
  shows "snd (resend_otp cfg db e w) =
           save (u\<lparr>emailVerificationOtp := Some (generateOtp (Math_random w)),
                   emailVerificationExpires := Some (Date_now w + 10 * 60 * 1000)\<rparr>) db"
  using assms by (simp add: resend_otp_def Let_def)

text \<open>
  C8. For every value \<^verbatim>\<open>Math.random()\<close> may return, \<open>generateOtp\<close> yields the decimal
  digits of a number from 100000 to 999999: six characters, all of them digits. A
  registration that succeeds stores this code on the new account together with the expiry
  \<^verbatim>\<open>Date.now() + 10 * 60 * 1000\<close>, ten minutes after the request. A resend for an
  account that is not yet verified stores a freshly generated code and the expiry ten
  minutes after the resend, in place of whatever code and expiry were stored.
\<close>

theorem otp_generation:
  "(unit_double r \<longrightarrow>
      (\<exists>n::nat. 100000 \<le> n \<and> n \<le> 999999 \<and> generateOtp r = digits n)
      \<and> length (generateOtp r) = 6 \<and> set (generateOtp r) \<subseteq> set ''0123456789'')
   \<and> (status (fst (register cfg db e p w)) = 201 \<longrightarrow>
        (\<exists>new. snd (register cfg db e p w) = db @ [new]
           \<and> emailVerificationOtp new = Some (generateOtp (Math_random w))
           \<and> emailVerificationExpires new = Some (Date_now w + 10 * 60 * 1000)))
   \<and> (validate_ResendOtpDTO cfg e = [] \<and> findOneBy (\<lambda>u. email u = e) db = Some u
        \<and> \<not> isEmailVerified u \<longrightarrow>
        snd (resend_otp cfg db e w) =
          save (u\<lparr>emailVerificationOtp := Some (generateOtp (Math_random w)),
                  emailVerificationExpires := Some (Date_now w + 10 * 60 * 1000)\<rparr>) db
        \<and> findOneBy (\<lambda>u. email u = e) (snd (resend_otp cfg db e w)) =
            Some (u\<lparr>emailVerificationOtp := Some (generateOtp (Math_random w)),
                    emailVerificationExpires := Some (Date_now w + 10 * 60 * 1000)\<rparr>))"
proof (intro conjI impI)
  assume "unit_double r"
  then obtain n :: nat where n: "100000 \<le> n" "n \<le> 999999" and g: "generateOtp r = digits n"
    by (rule generateOtp_six_digits)
  from n g show "\<exists>n::nat. 100000 \<le> n \<and> n \<le> 999999 \<and> generateOtp r = digits n" by blast
  from n have "10 ^ 5 \<le> n" and "n < 10 ^ Suc 5" by simp_all
  then have "length (digits n) = Suc 5" by (rule length_digits)
  with g show "length (generateOtp r) = 6" by simp
  from g show "set (generateOtp r) \<subseteq> set ''0123456789''" by (simp only: set_digits)
next
  assume "status (fst (register cfg db e p w)) = 201"
  with register_cases [of cfg db e p w]
  show "\<exists>new. snd (register cfg db e p w) = db @ [new]
           \<and> emailVerificationOtp new = Some (generateOtp (Math_random w))
           \<and> emailVerificationExpires new = Some (Date_now w + 10 * 60 * 1000)"
    by simp
next
  assume a: "validate_ResendOtpDTO cfg e = [] \<and> findOneBy (\<lambda>u. email u = e) db = Some u
        \<and> \<not> isEmailVerified u"
  let ?u' = "u\<lparr>emailVerificationOtp := Some (generateOtp (Math_random w)),
                emailVerificationExpires := Some (Date_now w + 10 * 60 * 1000)\<rparr>"
  from a have v: "validate_ResendOtpDTO cfg e = []"
    and f: "findOneBy (\<lambda>u. email u = e) db = Some u" and n: "\<not> isEmailVerified u"
    by simp_all
  from v f n show s: "snd (resend_otp cfg db e w) = save ?u' db"
    by (rule resend_otp_overwrites)
  from findOneBy_Some [OF f] have "email u = e" by simp
  with f have "findOneBy (\<lambda>u. email u = e) (save ?u' db) = Some ?u'"
    by (intro findOneBy_email_save) simp_all
  then show "findOneBy (\<lambda>u. email u = e) (snd (resend_otp cfg db e w)) = Some ?u'"
    by (simp only: s)
qed


lemma otp_number_half: "\<lfloor>fl (100000 + fl (1 / 2 * 900000))\<rfloor> = 550000"
  by code_simp

lemma otp_number_quarter: "\<lfloor>fl (100000 + fl (1 / 4 * 900000))\<rfloor> = 325000"
  by code_simp

lemma otp_of_half: "generateOtp (1 / 2) = ''550000''"
  unfolding generateOtp_def otp_number_half by (simp add: toString_def digitChar_def)

lemma otp_of_quarter: "generateOtp (1 / 4) = ''325000''"
  unfolding generateOtp_def otp_number_quarter by (simp add: toString_def digitChar_def)

text \<open>
  Witness for C8: the draw 1/2 gives the code 550000, stored at Alice's registration with
  the expiry 605000; a resend at 700000 with the draw 1/4 replaces both.
\<close>

theorem otp_generation_witness:
  "unit_double (1 / 2) \<and> generateOtp (1 / 2) = ''550000''
   \<and> length (generateOtp (1 / 2)) = 6
   \<and> register cfg0 [] ''alice@example.com'' ''secret1'' (world_at 5000) =
       (Json 201 [(''message'', Str ''Registration successful. Please check your email for verification code.''),
                  (''email'', Str ''alice@example.com''),
                  (''requiresVerification'', Bool True)],
        [alice_pending])
   \<and> snd (resend_otp cfg0 [alice_pending] ''alice@example.com''
             ((world_at 700000)\<lparr>Math_random := 1 / 4\<rparr>)) =
       [alice_pending\<lparr>emailVerificationOtp := Some ''325000'',
                      emailVerificationExpires := Some 1300000\<rparr>]"
proof -
  have h: "unit_double (1 / 2)" by code_simp
  from otp_generation [where r = "1 / 2", THEN conjunct1] h
  have l: "length (generateOtp (1 / 2)) = 6" by simp
  have r: "register cfg0 [] ''alice@example.com'' ''secret1'' (world_at 5000) =
       (Json 201 [(''message'', Str ''Registration successful. Please check your email for verification code.''),
                  (''email'', Str ''alice@example.com''),
                  (''requiresVerification'', Bool True)],
        [alice_pending])"
    by (simp add: register_def validate_RegisterDTO_def IsNotEmpty_def MinLength_def
          findOneBy_def save_new_def create_def argon2_hash_def otp_of_half alice_pending_def
          scenario_defs)
  let ?w = "(world_at 700000)\<lparr>Math_random := 1 / 4\<rparr>"
  have a: "validate_ResendOtpDTO cfg0 ''alice@example.com'' = []
      \<and> findOneBy (\<lambda>u. email u = ''alice@example.com'') [alice_pending] = Some alice_pending
      \<and> \<not> isEmailVerified alice_pending"
    by (simp add: validate_ResendOtpDTO_def findOneBy_def alice_pending_def cfg0_def)
  from otp_generation
         [where cfg = cfg0 and e = "''alice@example.com''" and db = "[alice_pending]"
            and u = alice_pending and w = ?w,
          THEN conjunct2, THEN conjunct2, THEN mp, OF a, THEN conjunct1]
  have s: "snd (resend_otp cfg0 [alice_pending] ''alice@example.com'' ?w) =
       [alice_pending\<lparr>emailVerificationOtp := Some ''325000'',
                      emailVerificationExpires := Some 1300000\<rparr>]"
    by (simp add: save_def otp_of_quarter world_at_def)
  from h otp_of_half l r s show ?thesis by simp
qed

section \<open>The round trip\<close>

text \<open>
  C5 (as amended). On a table whose identifiers are distinct, as they are in every state
  reached from the empty table: login, refresh and logout change no column of any account
  other than \<^verbatim>\<open>refreshToken\<close>, and verification of a one-time code changes no column other
  than the code, its expiry and the verified flag. A login and a refresh that succeed
  store the refresh token they generate on the account, which is its one column that
  differs afterwards, unless the token generated is the token stored already. A
  verification that succeeds leaves the account found by the email verified, which is a
  column that differs afterwards, unless the account was verified already. A registration
  that succeeds appends one new account, with all its columns set, and leaves every stored
  account as it was, and one that fails changes nothing.
\<close>

theorem fields_written_by_each_operation:
  "(distinct (map id' db) \<longrightarrow>
     list_all2 (\<lambda>a b. set (changed a b) \<subseteq> {''refreshToken''}) db (snd (login cfg db e p w))
   \<and> list_all2 (\<lambda>a b. set (changed a b) \<subseteq> {''refreshToken''}) db (snd (refresh cfg db t w))
   \<and> list_all2 (\<lambda>a b. set (changed a b) \<subseteq> {''refreshToken''}) db (snd (logout cfg db t w))
   \<and> list_all2 (\<lambda>a b. set (changed a b) \<subseteq>
           {''emailVerificationOtp'', ''emailVerificationExpires'', ''isEmailVerified''})
         db (snd (verify_otp cfg db e c w)))
   \<and> (status (fst (login cfg db e p w)) = 200 \<longrightarrow>
        (\<exists>u. findOneBy (\<lambda>u. email u = e) db = Some u
           \<and> findOneBy (\<lambda>u. email u = e) (snd (login cfg db e p w)) =
               Some (u\<lparr>refreshToken := Some (snd (generateTokens cfg (id' u) (Date_now w)))\<rparr>)
           \<and> changed u (u\<lparr>refreshToken := Some (snd (generateTokens cfg (id' u) (Date_now w)))\<rparr>) =
               (if refreshToken u = Some (snd (generateTokens cfg (id' u) (Date_now w)))
                then [] else [''refreshToken''])))
   \<and> (status (fst (refresh cfg db t w)) = 200 \<longrightarrow>
        (\<exists>u. refresh_account cfg db t w = Some u
           \<and> findOneBy (\<lambda>r. id' r = id' u) (snd (refresh cfg db t w)) =
               Some (u\<lparr>refreshToken := Some (snd (generateTokens cfg (id' u) (Date_now w)))\<rparr>)
           \<and> changed u (u\<lparr>refreshToken := Some (snd (generateTokens cfg (id' u) (Date_now w)))\<rparr>) =
               (if refreshToken u = Some (snd (generateTokens cfg (id' u) (Date_now w)))
                then [] else [''refreshToken''])))
   \<and> (status (fst (verify_otp cfg db e c w)) = 200 \<longrightarrow>
        (\<exists>u u'. findOneBy (\<lambda>u. email u = e) db = Some u
            \<and> findOneBy (\<lambda>u. email u = e) (snd (verify_otp cfg db e c w)) = Some u'
            \<and> isEmailVerified u'
            \<and> (if isEmailVerified u then changed u u' = []
                else ''isEmailVerified'' \<in> set (changed u u'))))
   \<and> (status (fst (register cfg db e p w)) = 201 \<longrightarrow>
        snd (register cfg db e p w) =
          db @ [\<lparr>id' = uuid w, email = e, password = Argon2 (argonSalt w) p,
                  refreshToken = None, resetPasswordToken = None, resetPasswordExpires = None,
                  emailVerificationOtp = Some (generateOtp (Math_random w)),
                  emailVerificationExpires = Some (Date_now w + 600000),
                  isEmailVerified = False\<rparr>])
   \<and> (status (fst (register cfg db e p w)) \<noteq> 201 \<longrightarrow> snd (register cfg db e p w) = db)
   \<and> (run cfg ([], Map.empty) rs = (db, latest) \<longrightarrow> distinct (map id' db))"
proof (intro impI conjI)
  assume d: "distinct (map id' db)"
  from d show "list_all2 (\<lambda>a b. set (changed a b) \<subseteq> {''refreshToken''}) db (snd (login cfg db e p w))"
    by (rule login_writes)
  from d show "list_all2 (\<lambda>a b. set (changed a b) \<subseteq> {''refreshToken''}) db (snd (refresh cfg db t w))"
    by (rule refresh_writes)
  from d show "list_all2 (\<lambda>a b. set (changed a b) \<subseteq> {''refreshToken''}) db (snd (logout cfg db t w))"
    by (rule logout_writes)
  from d show "list_all2 (\<lambda>a b. set (changed a b) \<subseteq>
           {''emailVerificationOtp'', ''emailVerificationExpires'', ''isEmailVerified''})
         db (snd (verify_otp cfg db e c w))"
    by (rule verify_otp_writes)
next
  assume "status (fst (login cfg db e p w)) = 200"
  then show "\<exists>u. findOneBy (\<lambda>u. email u = e) db = Some u
           \<and> findOneBy (\<lambda>u. email u = e) (snd (login cfg db e p w)) =
               Some (u\<lparr>refreshToken := Some (snd (generateTokens cfg (id' u) (Date_now w)))\<rparr>)
           \<and> changed u (u\<lparr>refreshToken := Some (snd (generateTokens cfg (id' u) (Date_now w)))\<rparr>) =
               (if refreshToken u = Some (snd (generateTokens cfg (id' u) (Date_now w)))
                then [] else [''refreshToken''])"
  proof (rule login_accepted)
    fix u :: User
    let ?u' = "u\<lparr>refreshToken := Some (snd (generateTokens cfg (id' u) (Date_now w)))\<rparr>"
    assume f: "findOneBy (\<lambda>u. email u = e) db = Some u"
      and s: "snd (login cfg db e p w) = save ?u' db"
    from findOneBy_Some [OF f] have "email u = e" by simp
    with f have "findOneBy (\<lambda>r. email r = e) (save ?u' db) = Some ?u'"
      by (intro findOneBy_email_save) simp_all
    with f s show ?thesis by (intro exI [of _ u]) (simp add: changed_refreshToken)
  qed
next
  assume a: "status (fst (refresh cfg db t w)) = 200"
  show "\<exists>u. refresh_account cfg db t w = Some u
           \<and> findOneBy (\<lambda>r. id' r = id' u) (snd (refresh cfg db t w)) =
               Some (u\<lparr>refreshToken := Some (snd (generateTokens cfg (id' u) (Date_now w)))\<rparr>)
           \<and> changed u (u\<lparr>refreshToken := Some (snd (generateTokens cfg (id' u) (Date_now w)))\<rparr>) =
               (if refreshToken u = Some (snd (generateTokens cfg (id' u) (Date_now w)))
                then [] else [''refreshToken''])"
  proof (cases "refresh_account cfg db t w")
    case None
    from refresh_rejected [OF this] a show ?thesis by auto
  next
    case (Some u)
    let ?u' = "u\<lparr>refreshToken := Some (snd (generateTokens cfg (id' u) (Date_now w)))\<rparr>"
    from Some have "findOneBy (\<lambda>r. id' r = id' u) db = Some u"
      by (auto simp: refresh_account_def split: option.splits if_splits dest: findOneBy_Some)
    then have "findOneBy (\<lambda>r. id' r = id' u) (save ?u' db) = Some ?u'"
      by (rule findOneBy_id_save) simp
    with Some refresh_accepted [OF Some] show ?thesis
      by (intro exI [of _ u]) (simp add: changed_refreshToken)
  qed
next
  assume "status (fst (verify_otp cfg db e c w)) = 200"
  then show "\<exists>u u'. findOneBy (\<lambda>u. email u = e) db = Some u
            \<and> findOneBy (\<lambda>u. email u = e) (snd (verify_otp cfg db e c w)) = Some u'
            \<and> isEmailVerified u'
            \<and> (if isEmailVerified u then changed u u' = []
                else ''isEmailVerified'' \<in> set (changed u u'))"
  proof (rule verify_otp_accepted)
    fix u :: User and x :: int
    assume f: "findOneBy (\<lambda>u. email u = e) db = Some u"
      and r: "verify_otp cfg db e c w =
           (Json 200 [(''message'', Str ''Email verified successfully''), (''verified'', Bool True)],
            save (u\<lparr>isEmailVerified := True\<rparr>) db)"
    from findOneBy_Some [OF f] have "email u = e" by simp
    with f have "findOneBy (\<lambda>r. email r = e) (save (u\<lparr>isEmailVerified := True\<rparr>) db) =
                   Some (u\<lparr>isEmailVerified := True\<rparr>)"
      by (intro findOneBy_email_save) simp_all
    with f r show ?thesis
      by (intro exI [of _ u] exI [of _ "u\<lparr>isEmailVerified := True\<rparr>"]) (simp add: changed_def)
  qed
next
  from register_cases [of cfg db e p w]
  show "status (fst (register cfg db e p w)) = 201 \<Longrightarrow>
        snd (register cfg db e p w) =
          db @ [\<lparr>id' = uuid w, email = e, password = Argon2 (argonSalt w) p,
                  refreshToken = None, resetPasswordToken = None, resetPasswordExpires = None,
                  emailVerificationOtp = Some (generateOtp (Math_random w)),
                  emailVerificationExpires = Some (Date_now w + 600000),
                  isEmailVerified = False\<rparr>]"
    and "status (fst (register cfg db e p w)) \<noteq> 201 \<Longrightarrow> snd (register cfg db e p w) = db"
    by simp_all
next
  assume "run cfg ([], Map.empty) rs = (db, latest)"
  moreover have "distinct (map id' ([] :: User list))" by simp
  ultimately show "distinct (map id' db)" by (rule run_distinct [rotated])
qed

text \<open>
  Witness for C5: Alice registers on the empty table, which then holds her account. She
  submits her code and is verified afterwards. She logs in, and she refreshes: each time
  the only column that differs afterwards is her refresh token. The table that her
  registration, verification and login build from nothing has distinct identifiers.
\<close>

theorem fields_written_by_each_operation_witness:
  "distinct (map id' [alice])
   \<and> list_all2 (\<lambda>a b. set (changed a b) \<subseteq> {''refreshToken''}) [alice]
        (snd (login cfg0 [alice] ''alice@example.com'' ''secret1'' (world_at 7000)))
   \<and> status (fst (login cfg0 [alice] ''alice@example.com'' ''secret1'' (world_at 7000))) = 200
   \<and> findOneBy (\<lambda>u. email u = ''alice@example.com'')
         (snd (login cfg0 [alice] ''alice@example.com'' ''secret1'' (world_at 7000))) =
       Some (alice\<lparr>refreshToken := Some (Jwt ''u1'' 2592007 7 ''k'')\<rparr>)
   \<and> changed alice (alice\<lparr>refreshToken := Some (Jwt ''u1'' 2592007 7 ''k'')\<rparr>) = [''refreshToken'']
   \<and> status (fst (refresh cfg0 [alice] (Some alice_token) (world_at 7000))) = 200
   \<and> findOneBy (\<lambda>u. id' u = ''u1'')
         (snd (refresh cfg0 [alice] (Some alice_token) (world_at 7000))) =
       Some (alice\<lparr>refreshToken := Some (Jwt ''u1'' 2592007 7 ''k'')\<rparr>)
   \<and> status (fst (verify_otp cfg0 [alice_pending] ''alice@example.com'' ''550000'' (world_at 6000))) = 200
   \<and> (\<exists>u'. findOneBy (\<lambda>u. email u = ''alice@example.com'')
              (snd (verify_otp cfg0 [alice_pending] ''alice@example.com'' ''550000'' (world_at 6000)))
              = Some u' \<and> isEmailVerified u' \<and> ''isEmailVerified'' \<in> set (changed alice_pending u'))
   \<and> status (fst (register cfg0 [] ''alice@example.com'' ''secret1'' (world_at 5000))) = 201
   \<and> snd (register cfg0 [] ''alice@example.com'' ''secret1'' (world_at 5000)) = [alice_pending]
   \<and> distinct (map id' (fst (run cfg0 ([], Map.empty) demo_run)))"
proof -
  let ?e = "''alice@example.com''" and ?p = "''secret1''"
  have "run cfg0 ([], Map.empty) demo_run =
          (fst (run cfg0 ([], Map.empty) demo_run), snd (run cfg0 ([], Map.empty) demo_run))"
    by simp
  with fields_written_by_each_operation
         [where cfg = cfg0 and rs = demo_run and db = "fst (run cfg0 ([], Map.empty) demo_run)"
            and latest = "snd (run cfg0 ([], Map.empty) demo_run)",
          THEN conjunct2, THEN conjunct2, THEN conjunct2, THEN conjunct2, THEN conjunct2,
          THEN conjunct2]
  have r: "distinct (map id' (fst (run cfg0 ([], Map.empty) demo_run)))" by (rule mp)
  note at_alice = fields_written_by_each_operation
         [where db = "[alice]" and cfg = cfg0 and e = ?e and p = ?p and w = "world_at 7000"
            and t = "Some alice_token"]
  have d: "distinct (map id' [alice])" by simp
  from at_alice [THEN conjunct1, THEN mp, OF d, THEN conjunct1]
  have l: "list_all2 (\<lambda>a b. set (changed a b) \<subseteq> {''refreshToken''}) [alice]
        (snd (login cfg0 [alice] ?e ?p (world_at 7000)))" .
  have g: "snd (generateTokens cfg0 ''u1'' 7000) = Jwt ''u1'' 2592007 7 ''k''"
    by (simp add: generateTokens_eq cfg0_def)
  have ls: "status (fst (login cfg0 [alice] ?e ?p (world_at 7000))) = 200"
    by (simp add: login_def validate_LoginDTO_def IsNotEmpty_def findOneBy_def
          argon2_verify_def generateTokens_eq scenario_defs)
  from at_alice [THEN conjunct2, THEN conjunct1, THEN mp, OF ls]
  obtain u :: User where u: "findOneBy (\<lambda>u. email u = ?e) [alice] = Some u"
    and lf: "findOneBy (\<lambda>u. email u = ?e) (snd (login cfg0 [alice] ?e ?p (world_at 7000))) =
               Some (u\<lparr>refreshToken :=
                        Some (snd (generateTokens cfg0 (id' u) (Date_now (world_at 7000))))\<rparr>)"
    and lc: "changed u (u\<lparr>refreshToken :=
                        Some (snd (generateTokens cfg0 (id' u) (Date_now (world_at 7000))))\<rparr>) =
               (if refreshToken u = Some (snd (generateTokens cfg0 (id' u) (Date_now (world_at 7000))))
                then [] else [''refreshToken''])"
    by blast
  from u have ua: "u = alice" by (simp add: findOneBy_def split: if_splits)
  have ia: "id' alice = ''u1''" and da: "Date_now (world_at 7000) = 7000"
    and ra: "refreshToken alice = Some (Jwt ''u1'' 2592005 5 ''k'')"
    by (simp_all add: scenario_defs)
  from lf have lf': "findOneBy (\<lambda>u. email u = ?e) (snd (login cfg0 [alice] ?e ?p (world_at 7000))) =
       Some (alice\<lparr>refreshToken := Some (Jwt ''u1'' 2592007 7 ''k'')\<rparr>)"
    unfolding ua ia da g .
  from lc have lc': "changed alice (alice\<lparr>refreshToken := Some (Jwt ''u1'' 2592007 7 ''k'')\<rparr>) =
       [''refreshToken'']"
    unfolding ua ia da g ra by simp
  have rs: "status (fst (refresh cfg0 [alice] (Some alice_token) (world_at 7000))) = 200"
    by (simp add: refresh_def falsy_def findOneBy_def generateTokens_eq scenario_defs)
  from at_alice [THEN conjunct2, THEN conjunct2, THEN conjunct1, THEN mp, OF rs]
  obtain v :: User where v: "refresh_account cfg0 [alice] (Some alice_token) (world_at 7000) = Some v"
    and rf: "findOneBy (\<lambda>r. id' r = id' v)
               (snd (refresh cfg0 [alice] (Some alice_token) (world_at 7000))) =
               Some (v\<lparr>refreshToken :=
                        Some (snd (generateTokens cfg0 (id' v) (Date_now (world_at 7000))))\<rparr>)"
    by blast
  from v have va: "v = alice"
    by (simp add: refresh_account_def findOneBy_def scenario_defs split: if_splits)
  from rf have rf': "findOneBy (\<lambda>u. id' u = ''u1'')
         (snd (refresh cfg0 [alice] (Some alice_token) (world_at 7000))) =
       Some (alice\<lparr>refreshToken := Some (Jwt ''u1'' 2592007 7 ''k'')\<rparr>)"
    unfolding va ia da g .
  have d': "distinct (map id' [alice_pending])" by simp
  have vs: "status (fst (verify_otp cfg0 [alice_pending] ?e ''550000'' (world_at 6000))) = 200"
    by (simp add: verify_otp_def validate_VerifyOtpDTO_def IsNotEmpty_def MinLength_def
          findOneBy_def alice_pending_def scenario_defs)
  from fields_written_by_each_operation
         [where db = "[alice_pending]" and cfg = cfg0 and e = ?e
            and c = "''550000''" and w = "world_at 6000",
          THEN conjunct2, THEN conjunct2, THEN conjunct2, THEN conjunct1, THEN mp, OF vs]
  obtain x x' :: User where x: "findOneBy (\<lambda>u. email u = ?e) [alice_pending] = Some x"
    and x': "findOneBy (\<lambda>u. email u = ?e)
               (snd (verify_otp cfg0 [alice_pending] ?e ''550000'' (world_at 6000))) = Some x'"
    and xv: "isEmailVerified x'"
    and xc: "if isEmailVerified x then changed x x' = []
             else ''isEmailVerified'' \<in> set (changed x x')"
    by blast
  from x have xa: "x = alice_pending" by (simp add: findOneBy_def split: if_splits)
  have "\<not> isEmailVerified alice_pending" by (simp add: alice_pending_def)
  with xc xa have "''isEmailVerified'' \<in> set (changed alice_pending x')" by simp
  with x' xv have e: "\<exists>u'. findOneBy (\<lambda>u. email u = ?e)
              (snd (verify_otp cfg0 [alice_pending] ?e ''550000'' (world_at 6000)))
              = Some u' \<and> isEmailVerified u' \<and> ''isEmailVerified'' \<in> set (changed alice_pending u')"
    by blast
  have gs: "status (fst (register cfg0 [] ?e ?p (world_at 5000))) = 201"
    by (simp add: register_def validate_RegisterDTO_def IsNotEmpty_def MinLength_def
          findOneBy_def save_new_def create_def Let_def scenario_defs)
  from fields_written_by_each_operation
         [where db = "[]" and cfg = cfg0 and e = ?e and p = ?p and w = "world_at 5000",
          THEN conjunct2, THEN conjunct2, THEN conjunct2, THEN conjunct2, THEN conjunct1,
          THEN mp, OF gs]
  have gt: "snd (register cfg0 [] ?e ?p (world_at 5000)) = [alice_pending]"
    by (simp add: otp_of_half alice_pending_def world_at_def)
  from d l ls lf' lc' rs rf' vs e gs gt r show ?thesis by (intro conjI)
qed

text \<open>
  Counterexample to C5 as stated: Alice registers on the empty table. The account the
  request succeeds on was not stored before; against a record with nothing set, five of
  its columns differ, not one.
\<close>

theorem register_sets_five_fields_counterexample:
  "register cfg0 [] ''alice@example.com'' ''secret1'' (world_at 5000) =
     (Json 201 [(''message'', Str ''Registration successful. Please check your email for verification code.''),
                (''email'', Str ''alice@example.com''),
                (''requiresVerification'', Bool True)],
      [alice_pending])
   \<and> changed (create [] (Argon2 [] [])) alice_pending =
       [''id'', ''email'', ''password'', ''emailVerificationOtp'', ''emailVerificationExpires'']"
  by (simp add: register_def validate_RegisterDTO_def IsNotEmpty_def MinLength_def
        findOneBy_def save_new_def create_def argon2_hash_def otp_of_half changed_def
        alice_pending_def scenario_defs)

section \<open>One-time codes and reset tokens\<close>

lemma save_idem: "save u' (save u' db) = save u' db"
  unfolding save_def by (induction db) simp_all

lemma findOneBy_save:
  "findOneBy P db = Some u \<Longrightarrow> id' u' = id' u \<Longrightarrow> P u' \<Longrightarrow> findOneBy P (save u' db) = Some u'"
  unfolding findOneBy_def save_def
  by (induction db) (auto split: if_splits)

text \<open>
  A code that is stored, matches and has not expired is accepted: the account is verified
  afterwards, and nothing else about it has changed. A code past its expiry is rejected
  and changes nothing.
\<close>

lemma verify_otp_success:
  assumes "validate_VerifyOtpDTO cfg e c = []"
    and "findOneBy (\<lambda>u. email u = e) db = Some u"
    and "emailVerificationOtp u = Some c" and "emailVerificationExpires u = Some x"
    and "Date_now w \<le> x"
  shows "verify_otp cfg db e c w =
           (Json 200 [(''message'', Str ''Email verified successfully''), (''verified'', Bool True)],
            save (u\<lparr>isEmailVerified := True\<rparr>) db)"
proof -
  from assms(1) have "c \<noteq> []"
    by (auto simp: validate_VerifyOtpDTO_def IsNotEmpty_def split: if_splits)
  with assms show ?thesis by (simp add: verify_otp_def skip_undefined_simps Let_def)
qed

lemma verify_otp_expired:
  assumes "findOneBy (\<lambda>u. email u = e) db = Some u"
    and "emailVerificationExpires u = Some x" and "x < Date_now w"
  shows "status (fst (verify_otp cfg db e c w)) = 400" and "snd (verify_otp cfg db e c w) = db"
  using assms by (auto simp: verify_otp_def)

text \<open>
  The code is still stored after it was used: until it expires, the same request is
  accepted again.
\<close>

lemma verify_otp_second_use:
  assumes "validate_VerifyOtpDTO cfg e c = []"
    and "findOneBy (\<lambda>u. email u = e) db = Some u"
    and "emailVerificationOtp u = Some c" and "emailVerificationExpires u = Some x"
    and "Date_now w' \<le> x"
  shows "verify_otp cfg (save (u\<lparr>isEmailVerified := True\<rparr>) db) e c w' =
           (Json 200 [(''message'', Str ''Email verified successfully''), (''verified'', Bool True)],
            save (u\<lparr>isEmailVerified := True\<rparr>) db)"
proof -
  let ?u' = "u\<lparr>isEmailVerified := True\<rparr>"
  from findOneBy_Some [OF assms(2)] have "email u = e" by simp
  with assms(2) have "findOneBy (\<lambda>r. email r = e) (save ?u' db) = Some ?u'"
    by (intro findOneBy_email_save) simp_all
  from verify_otp_success [OF assms(1) this, of x w'] assms(3-5)
  show ?thesis by (simp add: save_idem)
qed

text \<open>
  A reset token that is stored and has not expired is accepted, with any new password that
  is not empty: the account holds the new hash afterwards, and nothing else about it has
  changed. A token past its expiry is rejected and changes nothing.
\<close>

lemma reset_password_success:
  assumes "t \<noteq> []" and "p \<noteq> []"
    and "findOneBy (\<lambda>u. resetPasswordToken u = Some t) db = Some u"
    and "resetPasswordExpires u = Some x" and "Date_now w \<le> x"
  shows "reset_password cfg db t p w =
           (Json 200 [(''message'', Str ''Password has been reset'')],
            save (u\<lparr>password := argon2_hash (argonSalt w) p\<rparr>) db)"
  using assms by (simp add: reset_password_def skip_undefined_simps Let_def)

lemma reset_password_expired:
  assumes "findOneBy (\<lambda>u. resetPasswordToken u = Some t) db = Some u"
    and "resetPasswordExpires u = Some x" and "x < Date_now w"
  shows "status (fst (reset_password cfg db t p w)) = 400"
    and "snd (reset_password cfg db t p w) = db"
  using assms by (auto simp: reset_password_def)

text \<open>
  The token is still stored after it was used: until it expires, it sets the password
  again.
\<close>

lemma reset_password_second_use:
  assumes "t \<noteq> []" and "p' \<noteq> []"
    and "findOneBy (\<lambda>u. resetPasswordToken u = Some t) db = Some u"
    and "resetPasswordExpires u = Some x" and "Date_now w' \<le> x"
  shows "reset_password cfg (save (u\<lparr>password := h\<rparr>) db) t p' w' =
           (Json 200 [(''message'', Str ''Password has been reset'')],
            save (u\<lparr>password := argon2_hash (argonSalt w') p'\<rparr>) (save (u\<lparr>password := h\<rparr>) db))"
proof -
  let ?u' = "u\<lparr>password := h\<rparr>"
  from findOneBy_Some [OF assms(3)] have "resetPasswordToken u = Some t" by simp
  with assms(3) have "findOneBy (\<lambda>r. resetPasswordToken r = Some t) (save ?u' db) = Some ?u'"
    by (intro findOneBy_save) simp_all
  from reset_password_success [OF assms(1,2) this, of x w'] assms(4,5)
  show ?thesis by simp
qed

text \<open>The accounts of the examples are states that the routes reach from the empty table.\<close>

lemma alice_reachable:
  "fst (run cfg0 ([], Map.empty)
          [(Register ''alice@example.com'' ''secret1'', world_at 5000),
           (VerifyOtp ''alice@example.com'' ''550000'', world_at 5050),
           (Login ''alice@example.com'' ''secret1'', world_at 5100)]) = [alice]"
  by (simp add: register_def validate_RegisterDTO_def IsNotEmpty_def MinLength_def
        findOneBy_def save_new_def create_def argon2_hash_def otp_of_half
        verify_otp_def validate_VerifyOtpDTO_def skip_undefined_def Let_def save_def
        login_def validate_LoginDTO_def argon2_verify_def generateTokens_eq
        scenario_defs)

lemma alice_reset_reachable:
  "forgot_password cfg0 [alice] ''alice@example.com'' (world_at 9000) =
     (neutral_message, [alice_reset])"
  by (simp add: forgot_password_def findOneBy_def save_def toHex_def randomBytes_def
        hexChar_def upt_rec [of _ "numeral _"] upt_rec [of 0] alice_reset_def
        alice_reset_token_def scenario_defs)

text \<open>
  C4. A one-time code and a reset token are to be cleared by their first successful use,
  so that a second use is rejected; the routes' documentation says the same
  (\<^verbatim>\<open>Single-use OTPs (cleared after verification)\<close>, \<^verbatim>\<open>Single-use tokens (invalidated
  after use)\<close>). The code at a failing input: Alice, registered at 5000 ms, submits her code
  at 6000 ms. She is verified, but the properties the route assigned are \<^verbatim>\<open>undefined\<close>,
  the save skips them, and code and expiry are still stored: the same request a
  millisecond later is answered 200 again. Likewise the reset token she was sent at
  9000 ms sets the password to \<^verbatim>\<open>secret2\<close> at 10000 ms and stays stored with its expiry,
  and a millisecond later the same token sets the password to \<^verbatim>\<open>secret3\<close>.
\<close>

theorem one_time_codes_accepted_twice:
  "verify_otp cfg0 [alice_pending] ''alice@example.com'' ''550000'' (world_at 6000) =
     (Json 200 [(''message'', Str ''Email verified successfully''), (''verified'', Bool True)],
      [alice_pending\<lparr>isEmailVerified := True\<rparr>])
   \<and> emailVerificationOtp (alice_pending\<lparr>isEmailVerified := True\<rparr>) = Some ''550000''
   \<and> verify_otp cfg0 [alice_pending\<lparr>isEmailVerified := True\<rparr>] ''alice@example.com'' ''550000''
        (world_at 6001) =
     (Json 200 [(''message'', Str ''Email verified successfully''), (''verified'', Bool True)],
      [alice_pending\<lparr>isEmailVerified := True\<rparr>])
   \<and> reset_password cfg0 [alice_reset] alice_reset_token ''secret2'' (world_at 10000) =
     (Json 200 [(''message'', Str ''Password has been reset'')],
      [alice_reset\<lparr>password := Argon2 ''salt'' ''secret2''\<rparr>])
   \<and> resetPasswordToken (alice_reset\<lparr>password := Argon2 ''salt'' ''secret2''\<rparr>) = Some alice_reset_token
   \<and> reset_password cfg0 [alice_reset\<lparr>password := Argon2 ''salt'' ''secret2''\<rparr>] alice_reset_token
        ''secret3'' (world_at 10001) =
     (Json 200 [(''message'', Str ''Password has been reset'')],
      [alice_reset\<lparr>password := Argon2 ''salt'' ''secret3''\<rparr>])"
  by (simp add: verify_otp_def validate_VerifyOtpDTO_def IsNotEmpty_def MinLength_def
        reset_password_def argon2_hash_def findOneBy_def save_def skip_undefined_def Let_def
        alice_pending_def alice_reset_def alice_reset_token_def scenario_defs)

text \<open>
  Witness for C4: the second requests are answered 200, with the code and the token that
  the first requests left stored.
\<close>

theorem one_time_codes_accepted_twice_witness:
  "validate_VerifyOtpDTO cfg0 ''alice@example.com'' ''550000'' = []
   \<and> status (fst (verify_otp cfg0 [alice_pending\<lparr>isEmailVerified := True\<rparr>]
                    ''alice@example.com'' ''550000'' (world_at 6001))) = 200
   \<and> emailVerificationOtp (alice_pending\<lparr>isEmailVerified := True\<rparr>) = Some ''550000''
   \<and> status (fst (reset_password cfg0 [alice_reset\<lparr>password := Argon2 ''salt'' ''secret2''\<rparr>]
                    alice_reset_token ''secret3'' (world_at 10001))) = 200
   \<and> resetPasswordToken (alice_reset\<lparr>password := Argon2 ''salt'' ''secret2''\<rparr>) =
       Some alice_reset_token"
proof -
  have v: "validate_VerifyOtpDTO cfg0 ''alice@example.com'' ''550000'' = []"
    by (simp add: validate_VerifyOtpDTO_def IsNotEmpty_def MinLength_def cfg0_def)
  from one_time_codes_accepted_twice
  have "verify_otp cfg0 [alice_pending\<lparr>isEmailVerified := True\<rparr>] ''alice@example.com'' ''550000''
          (world_at 6001) =
        (Json 200 [(''message'', Str ''Email verified successfully''), (''verified'', Bool True)],
         [alice_pending\<lparr>isEmailVerified := True\<rparr>])"
    and o: "emailVerificationOtp (alice_pending\<lparr>isEmailVerified := True\<rparr>) = Some ''550000''"
    and "reset_password cfg0 [alice_reset\<lparr>password := Argon2 ''salt'' ''secret2''\<rparr>]
           alice_reset_token ''secret3'' (world_at 10001) =
         (Json 200 [(''message'', Str ''Password has been reset'')],
          [alice_reset\<lparr>password := Argon2 ''salt'' ''secret3''\<rparr>])"
    and t: "resetPasswordToken (alice_reset\<lparr>password := Argon2 ''salt'' ''secret2''\<rparr>) =
              Some alice_reset_token"
    by blast+
  then have "status (fst (verify_otp cfg0 [alice_pending\<lparr>isEmailVerified := True\<rparr>]
                    ''alice@example.com'' ''550000'' (world_at 6001))) = 200"
    and "status (fst (reset_password cfg0 [alice_reset\<lparr>password := Argon2 ''salt'' ''secret2''\<rparr>]
                    alice_reset_token ''secret3'' (world_at 10001))) = 200"
    by simp_all
  with v o t show ?thesis by (intro conjI)
qed

end
